theory Spec2Isabelle
  imports Main "HOL-Library.AList"
begin

section \<open>The editor's state core (src/components/App.jsx)\<close>

text \<open>
  A shallow embedding of the \<^verbatim>\<open>App\<close> component: the mutation pipeline
  (\<^verbatim>\<open>onStyleChanged\<close>), undo and redo, the layer operations, the source
  reconciler (\<^verbatim>\<open>fetchSources\<close>) and the undo/redo key handler.

  Conventions of the embedding.
  \<^item> \<^verbatim>\<open>this.state\<close>, \<^verbatim>\<open>this.revisionStore\<close> and the calls that leave the
    component (\<^verbatim>\<open>styleStore.save\<close>, \<^verbatim>\<open>fetch\<close>, the metadata downloaders,
    \<^verbatim>\<open>console\<close>) are one record \<open>app\<close>; every handler takes it and returns it
    updated. Each outgoing call appends one entry to the matching log field.
  \<^item> \<^verbatim>\<open>setState\<close> is applied at once, in program order.
  \<^item> JavaScript objects whose key order is observed (\<^verbatim>\<open>Object.entries\<close>) or that
    are copied and extended are association lists, each key held once. Keys are ordinary
    names: a key that shadows a method the code calls on the object
    (\<^verbatim>\<open>hasOwnProperty\<close>) or \<^verbatim>\<open>__proto__\<close> is outside the model.
  \<^item> Values are immutable here, so \<^verbatim>\<open>slice(0)\<close>, the spread copies and
    \<^verbatim>\<open>cloneDeep\<close> are the identity; the one place where the source mutates an
    object that is shared with \<^verbatim>\<open>this.state\<close> (the \<^verbatim>\<open>push\<close> in the
    fetch callback) is written out as an update of the state.
\<close>

subsection \<open>Data\<close>

text \<open>JavaScript values as they come out of \<^verbatim>\<open>response.json()\<close>, and
  \<^verbatim>\<open>undefined\<close> for a property that is not there. Numbers are never inspected
  by this code.\<close>

datatype jsval =
    Undefined
  | JNull
  | JBool bool
  | JNum int
  | JStr string
  | JArr "jsval list"
  | JObj "(string \<times> jsval) list"

text \<open>A layer: its \<^verbatim>\<open>id\<close>, its \<^verbatim>\<open>layout\<close> object (\<open>None\<close> when the layer has
  no \<^verbatim>\<open>layout\<close> key) and its remaining properties.\<close>

record layer =
  layer_id :: string
  layout :: "(string \<times> jsval) list option"
  props :: "(string \<times> jsval) list"

text \<open>A declared source: \<^verbatim>\<open>val.type\<close> and \<^verbatim>\<open>val.url\<close> (\<open>None\<close> when
  \<^verbatim>\<open>val.hasOwnProperty("url")\<close> is false).\<close>

record source_spec =
  spec_type :: string
  url :: "string option"

text \<open>The style document (\<^verbatim>\<open>mapStyle\<close>). \<open>sources\<close> is in the order of
  \<^verbatim>\<open>Object.entries\<close>.\<close>

record document =
  layers :: "layer list"
  sources :: "(string \<times> source_spec) list"
  glyphs :: "string option"
  sprite :: "string option"
  metadata :: "(string \<times> jsval) list"

text \<open>An entry of \<^verbatim>\<open>this.state.sources\<close>: \<^verbatim>\<open>{type, layers}\<close>.\<close>

record source_descriptor =
  desc_type :: string
  desc_layers :: "jsval list"

datatype validation_error = ValidationError (message: string)

datatype console_msg = ConsoleWarn string | ConsoleDebug string | ConsoleError string

datatype download = UpdateFonts "string option" | UpdateIcons "string option"

text \<open>Modelled from the spec: \<^verbatim>\<open>RevisionStore\<close> (libs/revisions) is not among the
  sources. The spec: an ordered history of accepted snapshots with a movable cursor;
  \<^verbatim>\<open>addRevision(doc)\<close> appends doc as the new head revision and discards any
  redo-forward history; \<^verbatim>\<open>undo()\<close> moves the cursor back if it has a predecessor and
  returns that revision, else returns the current one unchanged; \<^verbatim>\<open>redo()\<close> is
  symmetric. The constructor call \<^verbatim>\<open>new RevisionStore()\<close> of App.jsx starts with no
  revision; the store then has no current revision (\<open>None\<close>).\<close>

record revision_store =
  revisions :: "document list"
  cursor :: nat

definition emptyRevisionStore :: revision_store where
  "emptyRevisionStore = \<lparr>revisions = [], cursor = 0\<rparr>"

definition current :: "revision_store \<Rightarrow> document option" where
  "current rs = (if cursor rs < length (revisions rs) then Some (revisions rs ! cursor rs) else None)"

definition addRevision :: "document \<Rightarrow> revision_store \<Rightarrow> revision_store" where
  "addRevision doc rs =
     (let kept = take (Suc (cursor rs)) (revisions rs)
      in \<lparr>revisions = kept @ [doc], cursor = length kept\<rparr>)"

definition undo :: "revision_store \<Rightarrow> document option \<times> revision_store" where
  "undo rs =
     (let rs' = (if 0 < cursor rs then rs\<lparr>cursor := cursor rs - 1\<rparr> else rs)
      in (current rs', rs'))"

definition redo :: "revision_store \<Rightarrow> document option \<times> revision_store" where
  "redo rs =
     (let rs' = (if Suc (cursor rs) < length (revisions rs) then rs\<lparr>cursor := Suc (cursor rs)\<rparr> else rs)
      in (current rs', rs'))"

text \<open>The component: \<^verbatim>\<open>this.state\<close> (the fields the core uses),
  \<^verbatim>\<open>this.revisionStore\<close>, and the logs of outgoing calls, oldest first:
  \<open>saved\<close> for the arguments of \<^verbatim>\<open>styleStore.save\<close> (\<open>None\<close> for
  \<^verbatim>\<open>undefined\<close>), \<open>fetched\<close> for \<^verbatim>\<open>fetch\<close> (source key and url),
  \<open>downloads\<close> for \<^verbatim>\<open>updateFonts\<close>/\<^verbatim>\<open>updateIcons\<close>, \<open>console\<close>.

  \<open>'d\<close> is what \<^verbatim>\<open>this.state.mapStyle\<close> holds. It is a \<open>document\<close> in every
  state the pipeline and the layer operations work on (\<open>app\<close>). Undo and redo store
  what the revision store returns, which is \<^verbatim>\<open>undefined\<close> for a store without
  revisions: the state they leave has a \<open>document option\<close> there.\<close>

record 'd component =
  errors :: "string list"
  infos :: "string list"
  mapStyle :: 'd
  selectedLayerIndex :: int
  state_sources :: "(string \<times> source_descriptor) list"
  revisionStore :: revision_store
  saved :: "document option list"
  fetched :: "(string \<times> string) list"
  downloads :: "download list"
  console :: "console_msg list"

type_synonym app = "document component"

text \<open>\<^verbatim>\<open>setState({mapStyle: d})\<close> for a \<open>d\<close> that need not be a document: every
  other field is kept.\<close>

definition withMapStyle :: "'a component \<Rightarrow> 'd \<Rightarrow> 'd component" where
  "withMapStyle st d =
     \<lparr>errors = errors st, infos = infos st, mapStyle = d,
      selectedLayerIndex = selectedLayerIndex st, state_sources = state_sources st,
      revisionStore = revisionStore st, saved = saved st, fetched = fetched st,
      downloads = downloads st, console = console st\<rparr>"

text \<open>A state as it is, seen as one whose document may be undefined, and back: a state
  whose document is defined.\<close>

definition untouched :: "app \<Rightarrow> document option component" where
  "untouched st = withMapStyle st (Some (mapStyle st))"

definition defined :: "document option component \<Rightarrow> app option" where
  "defined st = (case mapStyle st of None \<Rightarrow> None | Some d \<Rightarrow> Some (withMapStyle st d))"

text \<open>What the component is given from outside this file: the validator of the style
  specification (\<^verbatim>\<open>styleSpec.validate(_, styleSpec.latest)\<close>), the diff messages of
  libs/diffmessage (their second argument is what the revision store returned), and
  \<^verbatim>\<open>normalizeSourceURL(_, MapboxGl.accessToken)\<close>, which returns the url or throws
  (\<open>None\<close>).\<close>

record env =
  validate :: "document \<Rightarrow> validation_error list"
  undoMessages :: "document \<Rightarrow> document option \<Rightarrow> string list"
  redoMessages :: "document \<Rightarrow> document option \<Rightarrow> string list"
  normalizeSourceURL :: "string \<Rightarrow> string option"

subsection \<open>The key handler (lines 191-208)\<close>

record key_event =
  metaKey :: bool
  shiftKey :: bool
  ctrlKey :: bool
  keyCode :: int

datatype action = Undo | Redo

text \<open>\<^verbatim>\<open>toUpperCase\<close> and \<^verbatim>\<open>indexOf\<close> on the platform string, whose
  characters are ASCII.\<close>

definition toUpperChar :: "char \<Rightarrow> char" where
  "toUpperChar c =
     (case map_of (zip ''abcdefghijklmnopqrstuvwxyz'' ''ABCDEFGHIJKLMNOPQRSTUVWXYZ'') c of
        Some u \<Rightarrow> u
      | None \<Rightarrow> c)"

definition toUpperCase :: "string \<Rightarrow> string" where
  "toUpperCase s = map toUpperChar s"

fun indexOf :: "string \<Rightarrow> string \<Rightarrow> int" where
  "indexOf [] p = (if p = [] then 0 else - 1)"
| "indexOf (c # cs) p =
     (if take (length p) (c # cs) = p then 0
      else (let r = indexOf cs p in if r < 0 then - 1 else r + 1))"

text \<open>The handlers that one key event invokes, in order: the body of
  \<^verbatim>\<open>handleKeyPress\<close> with each \<^verbatim>\<open>this.onRedo(e)\<close> / \<^verbatim>\<open>this.onUndo(e)\<close>
  call recorded.\<close>

definition keyActions :: "string \<Rightarrow> key_event \<Rightarrow> action list" where
  "keyActions platform e =
     (if indexOf (toUpperCase platform) ''MAC'' \<ge> 0 then
        (if metaKey e \<and> shiftKey e \<and> keyCode e = 90 then [Redo]
         else if metaKey e \<and> keyCode e = 90 then [Undo]
         else [])
      else
        (if ctrlKey e \<and> keyCode e = 90 then [Undo]
         else if ctrlKey e \<and> keyCode e = 89 then [Redo]
         else []))"

subsection \<open>Source reconciliation (lines 371-427)\<close>

definition hasOwnProperty :: "(string \<times> 'a) list \<Rightarrow> string \<Rightarrow> bool" where
  "hasOwnProperty obj key = (map_of obj key \<noteq> None)"

text \<open>Lines 384-392 for one source that passed the test of line 384:
  \<^verbatim>\<open>normalizeSourceURL\<close> in its \<^verbatim>\<open>try\<close> (a throw is warned about and the url
  kept), then the \<^verbatim>\<open>fetch\<close>.\<close>

definition issueFetch :: "env \<Rightarrow> string \<Rightarrow> string \<Rightarrow> app \<Rightarrow> app" where
  "issueFetch env key u st =
     (case normalizeSourceURL env u of
        Some u' \<Rightarrow> st\<lparr>fetched := fetched st @ [(key, u')]\<rparr>
      | None \<Rightarrow>
          st\<lparr>console := console st @ [ConsoleWarn ''Failed to normalizeSourceURL: ''],
             fetched := fetched st @ [(key, u)]\<rparr>)"

text \<open>The \<^verbatim>\<open>for\<close> loop over \<^verbatim>\<open>Object.entries(this.state.mapStyle.sources)\<close>;
  the accumulator is \<^verbatim>\<open>sourceList\<close> and the component, whose
  \<^verbatim>\<open>this.state.sources\<close> the loop only reads.\<close>

fun fetchSourcesLoop ::
  "env \<Rightarrow> (string \<times> source_spec) list \<Rightarrow> (string \<times> source_descriptor) list \<times> app
     \<Rightarrow> (string \<times> source_descriptor) list \<times> app" where
  "fetchSourcesLoop env [] (sourceList, st) = (sourceList, st)"
| "fetchSourcesLoop env ((key, val) # entries) (sourceList, st) =
     (if hasOwnProperty sourceList key then fetchSourcesLoop env entries (sourceList, st)
      else
        (let sourceList' =
               AList.update key \<lparr>desc_type = spec_type val, desc_layers = []\<rparr> sourceList;
             st' =
               (case url val of
                  Some u \<Rightarrow>
                    (if \<not> hasOwnProperty (state_sources st) key \<and> spec_type val = ''vector''
                     then issueFetch env key u st else st)
                | None \<Rightarrow> st)
         in fetchSourcesLoop env entries (sourceList', st')))"

definition fetchSources :: "env \<Rightarrow> app \<Rightarrow> app" where
  "fetchSources env st =
     (case fetchSourcesLoop env (sources (mapStyle st)) (state_sources st, st) of
        (sourceList, st') \<Rightarrow>
          (if state_sources st' \<noteq> sourceList
           then st'\<lparr>console := console st' @ [ConsoleDebug ''Setting sources''],
                    state_sources := sourceList\<rparr>
           else st'))"

text \<open>The promise chain of one fetch (lines 395-417). \<open>Body json\<close>: the fetch resolved
  and \<^verbatim>\<open>response.json()\<close> gave \<open>json\<close>; \<open>Failed\<close>: the fetch or the parse rejected.\<close>

datatype fetch_result = Body jsval | Failed

datatype js_error = TypeError

text \<open>\<^verbatim>\<open>json.hasOwnProperty(name)\<close>: throws on \<^verbatim>\<open>null\<close> and \<^verbatim>\<open>undefined\<close>;
  an array, a string, a number or a boolean has no own property of a name such as
  \<^verbatim>\<open>vector_layers\<close>.\<close>

fun jsHasOwnProperty :: "jsval \<Rightarrow> string \<Rightarrow> js_error + bool" where
  "jsHasOwnProperty Undefined name = Inl TypeError"
| "jsHasOwnProperty JNull name = Inl TypeError"
| "jsHasOwnProperty (JObj kvs) name = Inr (hasOwnProperty kvs name)"
| "jsHasOwnProperty v name = Inr False"

text \<open>\<^verbatim>\<open>v.name\<close>, for a \<open>v\<close> that is neither \<^verbatim>\<open>null\<close> nor \<^verbatim>\<open>undefined\<close>.\<close>

fun getProperty :: "jsval \<Rightarrow> string \<Rightarrow> jsval" where
  "getProperty (JObj kvs) name = (case map_of kvs name of Some v \<Rightarrow> v | None \<Rightarrow> Undefined)"
| "getProperty v name = Undefined"

text \<open>What \<^verbatim>\<open>for(let layer of v)\<close> iterates over: the elements of an array, the
  characters of a string; anything else is not iterable.\<close>

fun iterate :: "jsval \<Rightarrow> js_error + jsval list" where
  "iterate (JArr items) = Inr items"
| "iterate (JStr s) = Inr (map (\<lambda>c. JStr [c]) s)"
| "iterate v = Inl TypeError"

text \<open>The loop of lines 406-408. \<^verbatim>\<open>sources\<close> is a shallow copy, so the
  \<^verbatim>\<open>push\<close> writes into the descriptor that \<^verbatim>\<open>this.state.sources\<close> holds:
  the pushes made before a throw stay. The second component is the error thrown, if
  any: \<^verbatim>\<open>sources[key]\<close> is \<^verbatim>\<open>undefined\<close>, or \<^verbatim>\<open>layer\<close> is \<^verbatim>\<open>null\<close>.\<close>

fun pushLayerIds ::
  "string \<Rightarrow> jsval list \<Rightarrow> (string \<times> source_descriptor) list
     \<Rightarrow> (string \<times> source_descriptor) list \<times> js_error option" where
  "pushLayerIds key [] srcs = (srcs, None)"
| "pushLayerIds key (layer # rest) srcs =
     (case map_of srcs key of
        None \<Rightarrow> (srcs, Some TypeError)
      | Some d \<Rightarrow>
          (if layer = JNull \<or> layer = Undefined then (srcs, Some TypeError)
           else pushLayerIds key rest
                  (AList.update key (d\<lparr>desc_layers := desc_layers d @ [getProperty layer ''id'']\<rparr>) srcs)))"

definition logFetchError :: "string \<Rightarrow> app \<Rightarrow> app" where
  "logFetchError u st =
     st\<lparr>console := console st @ [ConsoleError (''Failed to process sources for '' @ u)]\<rparr>"

definition fetchSettled :: "string \<Rightarrow> string \<Rightarrow> fetch_result \<Rightarrow> app \<Rightarrow> app" where
  "fetchSettled key u res st =
     (case res of
        Failed \<Rightarrow> logFetchError u st
      | Body json \<Rightarrow>
          (case jsHasOwnProperty json ''vector_layers'' of
             Inl err \<Rightarrow> logFetchError u st
           | Inr False \<Rightarrow> st
           | Inr True \<Rightarrow>
               (case iterate (getProperty json ''vector_layers'') of
                  Inl err \<Rightarrow> logFetchError u st
                | Inr items \<Rightarrow>
                    (case pushLayerIds key items (state_sources st) of
                       (srcs, Some err) \<Rightarrow> logFetchError u (st\<lparr>state_sources := srcs\<rparr>)
                     | (srcs, None) \<Rightarrow>
                         st\<lparr>console := console st @ [ConsoleDebug (''Updating source: '' @ key)],
                            state_sources := srcs\<rparr>))))"

subsection \<open>The mutation pipeline (lines 218-263)\<close>

definition saveStyle :: "document option \<Rightarrow> 'd component \<Rightarrow> 'd component" where
  "saveStyle snapshotStyle st = st\<lparr>saved := saved st @ [snapshotStyle]\<rparr>"

text \<open>\<^verbatim>\<open>updateFonts\<close> and \<^verbatim>\<open>updateIcons\<close> start a download whose callback, later,
  writes \<^verbatim>\<open>this.state.spec\<close> only; the call is recorded with its argument.\<close>

definition updateFonts :: "string option \<Rightarrow> app \<Rightarrow> app" where
  "updateFonts urlTemplate st = st\<lparr>downloads := downloads st @ [UpdateFonts urlTemplate]\<rparr>"

definition updateIcons :: "string option \<Rightarrow> app \<Rightarrow> app" where
  "updateIcons baseUrl st = st\<lparr>downloads := downloads st @ [UpdateIcons baseUrl]\<rparr>"

definition onStyleChanged :: "env \<Rightarrow> app \<Rightarrow> document \<Rightarrow> bool \<Rightarrow> app" where
  "onStyleChanged env st newStyle save =
     (let errs = validate env newStyle;
          st1 =
            (if length errs = 0 then
               (let sa = (if glyphs newStyle \<noteq> glyphs (mapStyle st)
                          then updateFonts (glyphs newStyle) st else st);
                    sb = (if sprite newStyle \<noteq> sprite (mapStyle st)
                          then updateIcons (sprite newStyle) sa else sa);
                    sc = sb\<lparr>revisionStore := addRevision newStyle (revisionStore sb)\<rparr>;
                    sd = (if save then saveStyle (Some newStyle) sc else sc)
                in sd\<lparr>mapStyle := newStyle, errors := []\<rparr>)
             else st\<lparr>errors := map message errs\<rparr>)
      in fetchSources env st1)"

subsection \<open>Undo and redo (lines 265-283)\<close>

text \<open>\<^verbatim>\<open>activeStyle\<close> is what the store returns, \<open>None\<close> for the
  \<^verbatim>\<open>undefined\<close> of a store without revisions; it is passed on to the diff
  messages, to \<^verbatim>\<open>saveStyle\<close> and to \<^verbatim>\<open>setState\<close> as it is.\<close>

definition onUndo :: "env \<Rightarrow> app \<Rightarrow> document option component" where
  "onUndo env st =
     (case undo (revisionStore st) of
        (activeStyle, rs) \<Rightarrow>
          (let messages = undoMessages env (mapStyle st) activeStyle;
               st1 = saveStyle activeStyle (st\<lparr>revisionStore := rs\<rparr>)
           in (withMapStyle st1 activeStyle)\<lparr>infos := messages\<rparr>))"

definition onRedo :: "env \<Rightarrow> app \<Rightarrow> document option component" where
  "onRedo env st =
     (case redo (revisionStore st) of
        (activeStyle, rs) \<Rightarrow>
          (let messages = redoMessages env (mapStyle st) activeStyle;
               st1 = saveStyle activeStyle (st\<lparr>revisionStore := rs\<rparr>)
           in (withMapStyle st1 activeStyle)\<lparr>infos := messages\<rparr>))"

text \<open>\<^verbatim>\<open>handleKeyPress\<close> (lines 191-208); a key event that reaches no call leaves
  the component untouched.\<close>

definition handleKeyPress ::
  "env \<Rightarrow> string \<Rightarrow> key_event \<Rightarrow> app \<Rightarrow> document option component" where
  "handleKeyPress env platform e st =
     (if indexOf (toUpperCase platform) ''MAC'' \<ge> 0 then
        (if metaKey e \<and> shiftKey e \<and> keyCode e = 90 then onRedo env st
         else if metaKey e \<and> keyCode e = 90 then onUndo env st
         else untouched st)
      else
        (if ctrlKey e \<and> keyCode e = 90 then onUndo env st
         else if ctrlKey e \<and> keyCode e = 89 then onRedo env st
         else untouched st))"

text \<open>The handler that an entry of \<open>keyActions\<close> stands for.\<close>

fun runAction :: "env \<Rightarrow> action \<Rightarrow> app \<Rightarrow> document option component" where
  "runAction env Undo st = onUndo env st"
| "runAction env Redo st = onRedo env st"

subsection \<open>Layer operations (lines 285-342)\<close>

text \<open>\<^verbatim>\<open>lodash.clamp(number, lower, upper)\<close>: the upper bound is applied first, then
  the lower one.\<close>

definition clamp :: "int \<Rightarrow> int \<Rightarrow> int \<Rightarrow> int" where
  "clamp number lower upper = max lower (min upper number)"

text \<open>\<^verbatim>\<open>arrayMove\<close> of react-sortable-hoc, on a copy of the array:
  \<^verbatim>\<open>array.splice(newIndex, 0, array.splice(previousIndex, 1)[0])\<close>. \<open>None\<close> when
  an index is outside the array: the library then fills with \<^verbatim>\<open>undefined\<close>, which a
  list of layers cannot hold.\<close>

definition arrayMove :: "'a list \<Rightarrow> nat \<Rightarrow> nat \<Rightarrow> 'a list option" where
  "arrayMove arr previousIndex newIndex =
     (if previousIndex < length arr \<and> newIndex < length arr then
        (let moved = arr ! previousIndex;
             array = take previousIndex arr @ drop (Suc previousIndex) arr
         in Some (take newIndex array @ [moved] @ drop newIndex array))
      else None)"

text \<open>Modelled from the spec: \<^verbatim>\<open>style.indexOfLayer\<close> (libs/style) is not among the
  sources; the spec has it locate the layer by id. It is the position of the first layer
  with that id here, and \<open>None\<close> when no layer has the id: what the function answers
  then is not said, so the operations below have no modelled result (\<open>None\<close>) in that
  case.\<close>

fun indexOfLayer :: "layer list \<Rightarrow> string \<Rightarrow> nat option" where
  "indexOfLayer [] layerId = None"
| "indexOfLayer (l # ls) layerId =
     (if layer_id l = layerId then Some 0 else map_option Suc (indexOfLayer ls layerId))"

definition onLayersChange :: "env \<Rightarrow> app \<Rightarrow> layer list \<Rightarrow> app" where
  "onLayersChange env st changedLayers =
     onStyleChanged env st ((mapStyle st)\<lparr>layers := changedLayers\<rparr>) True"

definition onMoveLayer :: "env \<Rightarrow> app \<Rightarrow> int \<Rightarrow> int \<Rightarrow> app option" where
  "onMoveLayer env st oldIndex0 newIndex0 =
     (let ls = layers (mapStyle st);
          oldIndex = clamp oldIndex0 0 (int (length ls) - 1);
          newIndex = clamp newIndex0 0 (int (length ls) - 1)
      in if oldIndex = newIndex then Some st
         else
           (let st1 = (if oldIndex = selectedLayerIndex st
                       then st\<lparr>selectedLayerIndex := newIndex\<rparr> else st)
            in map_option (onLayersChange env st1) (arrayMove ls (nat oldIndex) (nat newIndex))))"

text \<open>Lines 312-315: the list that \<^verbatim>\<open>onLayerDestroy\<close> hands on.\<close>

definition remainingLayers :: "layer list \<Rightarrow> string \<Rightarrow> layer list option" where
  "remainingLayers ls layerId =
     (case indexOfLayer ls layerId of
        None \<Rightarrow> None
      | Some idx \<Rightarrow> Some (take idx ls @ drop (Suc idx) ls))"

definition onLayerDestroy :: "env \<Rightarrow> app \<Rightarrow> string \<Rightarrow> app option" where
  "onLayerDestroy env st layerId =
     map_option (onLayersChange env st) (remainingLayers (layers (mapStyle st)) layerId)"

text \<open>Lines 320-326: the clone with its new id, and \<^verbatim>\<open>splice(idx, 0, clonedLayer)\<close>.\<close>

definition clonedLayer :: "layer \<Rightarrow> layer" where
  "clonedLayer l = l\<lparr>layer_id := layer_id l @ ''-copy''\<rparr>"

definition copiedLayers :: "layer list \<Rightarrow> string \<Rightarrow> layer list option" where
  "copiedLayers ls layerId =
     (case indexOfLayer ls layerId of
        None \<Rightarrow> None
      | Some idx \<Rightarrow> Some (take idx ls @ [clonedLayer (ls ! idx)] @ drop idx ls))"

definition onLayerCopy :: "env \<Rightarrow> app \<Rightarrow> string \<Rightarrow> app option" where
  "onLayerCopy env st layerId =
     map_option (onLayersChange env st) (copiedLayers (layers (mapStyle st)) layerId)"

text \<open>Lines 335-339: the layer with its visibility flipped.\<close>

definition visibility :: "layer \<Rightarrow> jsval" where
  "visibility l =
     (case layout l of
        None \<Rightarrow> Undefined
      | Some lo \<Rightarrow> (case map_of lo ''visibility'' of Some v \<Rightarrow> v | None \<Rightarrow> Undefined))"

definition toggleVisibility :: "layer \<Rightarrow> layer" where
  "toggleVisibility l =
     (let changedLayout = (case layout l of Some lo \<Rightarrow> lo | None \<Rightarrow> []);
          v = (if map_of changedLayout ''visibility'' = Some (JStr ''none'')
               then ''visible'' else ''none'')
      in l\<lparr>layout := Some (AList.update ''visibility'' (JStr v) changedLayout)\<rparr>)"

definition toggledLayers :: "layer list \<Rightarrow> string \<Rightarrow> layer list option" where
  "toggledLayers ls layerId =
     (case indexOfLayer ls layerId of
        None \<Rightarrow> None
      | Some idx \<Rightarrow> Some (ls[idx := toggleVisibility (ls ! idx)]))"

definition onLayerVisibilityToggle :: "env \<Rightarrow> app \<Rightarrow> string \<Rightarrow> app option" where
  "onLayerVisibilityToggle env st layerId =
     map_option (onLayersChange env st) (toggledLayers (layers (mapStyle st)) layerId)"

text \<open>The bound on the selection: when there are layers, \<open>selectedLayerIndex\<close> is the
  position of one of them.\<close>

definition selectionValid :: "app \<Rightarrow> bool" where
  "selectionValid st =
     (layers (mapStyle st) \<noteq> [] \<longrightarrow>
        0 \<le> selectedLayerIndex st \<and> selectedLayerIndex st < int (length (layers (mapStyle st))))"

subsection \<open>Fixtures\<close>

text \<open>A validator that accepts every document and one that rejects every document,
  diff messages that name the direction, and a url normaliser that changes nothing.\<close>

definition acceptAll :: env where
  "acceptAll =
     \<lparr>validate = (\<lambda>d. []),
      undoMessages = (\<lambda>before after. [''undo'']),
      redoMessages = (\<lambda>before after. [''redo'']),
      normalizeSourceURL = Some\<rparr>"

definition rejectAll :: env where
  "rejectAll = acceptAll\<lparr>validate := (\<lambda>d. [ValidationError ''layers: array expected'']) \<rparr>"

definition mkLayer :: "string \<Rightarrow> layer" where
  "mkLayer name = \<lparr>layer_id = name, layout = None, props = []\<rparr>"

definition emptyStyle :: document where
  "emptyStyle = \<lparr>layers = [], sources = [], glyphs = None, sprite = None, metadata = []\<rparr>"

definition initialApp :: app where
  "initialApp =
     \<lparr>errors = [], infos = [], mapStyle = emptyStyle, selectedLayerIndex = 0,
      state_sources = [], revisionStore = emptyRevisionStore, saved = [], fetched = [],
      downloads = [], console = []\<rparr>"

text \<open>A component whose committed document has the given layers and selection, with
  that document as the only revision.\<close>

definition appWith :: "layer list \<Rightarrow> int \<Rightarrow> app" where
  "appWith ls sel =
     initialApp\<lparr>mapStyle := emptyStyle\<lparr>layers := ls\<rparr>, selectedLayerIndex := sel,
       revisionStore := \<lparr>revisions = [emptyStyle\<lparr>layers := ls\<rparr>], cursor = 0\<rparr>\<rparr>"

text \<open>A document that declares one remote vector source.\<close>

definition vectorStyle :: document where
  "vectorStyle =
     emptyStyle\<lparr>sources :=
       [(''s1'', \<lparr>spec_type = ''vector'', url = Some ''https://x/tiles.json''\<rparr>)]\<rparr>"

definition styleA :: document where
  "styleA = emptyStyle\<lparr>layers := [mkLayer ''A'']\<rparr>"

definition styleB :: document where
  "styleB = emptyStyle\<lparr>layers := [mkLayer ''A'', mkLayer ''B'']\<rparr>"

definition styleC :: document where
  "styleC = emptyStyle\<lparr>layers := [mkLayer ''C'']\<rparr>"

text \<open>A component in the middle of a history of three revisions.\<close>

definition historyApp :: app where
  "historyApp =
     initialApp\<lparr>mapStyle := styleB,
       revisionStore := \<lparr>revisions = [styleA, styleB, styleC], cursor = 1\<rparr>\<rparr>"

text \<open>A layer that is hidden explicitly.\<close>

definition hiddenLayer :: layer where
  "hiddenLayer = \<lparr>layer_id = ''A'', layout = Some [(''visibility'', JStr ''none'')], props = []\<rparr>"

text \<open>The body of a descriptor that lists one vector layer, and a document with a remote
  vector source, a source of another type and a vector source without a url.\<close>

definition roadsResponse :: jsval where
  "roadsResponse = JObj [(''vector_layers'', JArr [JObj [(''id'', JStr ''roads'')]])]"

definition mixedStyle :: document where
  "mixedStyle =
     emptyStyle\<lparr>sources :=
       [(''s1'', \<lparr>spec_type = ''vector'', url = Some ''https://x/tiles.json''\<rparr>),
        (''g'', \<lparr>spec_type = ''geojson'', url = Some ''https://x/data.json''\<rparr>),
        (''v'', \<lparr>spec_type = ''vector'', url = None\<rparr>)]\<rparr>"

section \<open>Properties\<close>

subsection \<open>Auxiliary facts about the operations\<close>

lemma issueFetch_frame:
  "errors (issueFetch env key u st) = errors st \<and> infos (issueFetch env key u st) = infos st \<and>
   mapStyle (issueFetch env key u st) = mapStyle st \<and>
   selectedLayerIndex (issueFetch env key u st) = selectedLayerIndex st \<and>
   state_sources (issueFetch env key u st) = state_sources st \<and>
   revisionStore (issueFetch env key u st) = revisionStore st \<and>
   saved (issueFetch env key u st) = saved st \<and> downloads (issueFetch env key u st) = downloads st"
  by (cases "normalizeSourceURL env u") (simp_all add: issueFetch_def)

lemma fetchSourcesLoop_frame:
  "fetchSourcesLoop env es (sl, st) = (sl', st') \<Longrightarrow>
   errors st' = errors st \<and> infos st' = infos st \<and> mapStyle st' = mapStyle st \<and>
   selectedLayerIndex st' = selectedLayerIndex st \<and> state_sources st' = state_sources st \<and>
   revisionStore st' = revisionStore st \<and> saved st' = saved st \<and> downloads st' = downloads st"
proof (induction es arbitrary: sl st)
  case Nil
  then show ?case by simp
next
  case (Cons e es)
  obtain key val where e: "e = (key, val)" by (cases e)
  show ?case
  proof (cases "hasOwnProperty sl key")
    case True
    then show ?thesis using Cons.IH[of sl st] Cons.prems by (simp add: e)
  next
    case False
    let ?sl = "AList.update key \<lparr>desc_type = spec_type val, desc_layers = []\<rparr> sl"
    let ?st = "(case url val of
                  Some u \<Rightarrow>
                    (if \<not> hasOwnProperty (state_sources st) key \<and> spec_type val = ''vector''
                     then issueFetch env key u st else st)
                | None \<Rightarrow> st)"
    have step: "fetchSourcesLoop env es (?sl, ?st) = (sl', st')"
      using Cons.prems False by (simp add: e Let_def)
    have mid: "errors ?st = errors st \<and> infos ?st = infos st \<and> mapStyle ?st = mapStyle st \<and>
      selectedLayerIndex ?st = selectedLayerIndex st \<and> state_sources ?st = state_sources st \<and>
      revisionStore ?st = revisionStore st \<and> saved ?st = saved st \<and> downloads ?st = downloads st"
      using issueFetch_frame[of env key _ st] by (simp split: option.splits)
    from Cons.IH[OF step] mid show ?thesis by simp
  qed
qed

lemma fetchSources_frame:
  "errors (fetchSources env st) = errors st \<and> infos (fetchSources env st) = infos st \<and>
   mapStyle (fetchSources env st) = mapStyle st \<and>
   selectedLayerIndex (fetchSources env st) = selectedLayerIndex st \<and>
   revisionStore (fetchSources env st) = revisionStore st \<and>
   saved (fetchSources env st) = saved st \<and> downloads (fetchSources env st) = downloads st"
proof -
  obtain sl' st' where l:
    "fetchSourcesLoop env (sources (mapStyle st)) (state_sources st, st) = (sl', st')"
    by (cases "fetchSourcesLoop env (sources (mapStyle st)) (state_sources st, st)")
  from fetchSourcesLoop_frame[OF l] show ?thesis
    by (simp add: fetchSources_def l)
qed

lemma onStyleChanged_mapStyle:
  "mapStyle (onStyleChanged env st newStyle save) =
     (if validate env newStyle = [] then newStyle else mapStyle st)"
  by (simp add: onStyleChanged_def Let_def fetchSources_frame)

lemma onStyleChanged_selectedLayerIndex:
  "selectedLayerIndex (onStyleChanged env st newStyle save) = selectedLayerIndex st"
  by (simp add: onStyleChanged_def Let_def fetchSources_frame saveStyle_def updateFonts_def
      updateIcons_def)

lemma onStyleChanged_errors:
  "errors (onStyleChanged env st newStyle save) = map message (validate env newStyle)"
  by (simp add: onStyleChanged_def Let_def fetchSources_frame)

lemma onStyleChanged_infos:
  "infos (onStyleChanged env st newStyle save) = infos st"
  by (simp add: onStyleChanged_def Let_def fetchSources_frame saveStyle_def updateFonts_def
      updateIcons_def)

lemma issueFetch_errors:
  "issueFetch env key u (st\<lparr>errors := e\<rparr>) = (issueFetch env key u st)\<lparr>errors := e\<rparr>"
  by (cases "normalizeSourceURL env u") (simp_all add: issueFetch_def)

lemma fetchSourcesLoop_errors:
  "fetchSourcesLoop env es (sl, st\<lparr>errors := e\<rparr>) =
     (case fetchSourcesLoop env es (sl, st) of (sl', st') \<Rightarrow> (sl', st'\<lparr>errors := e\<rparr>))"
proof (induction es arbitrary: sl st)
  case Nil
  show ?case by simp
next
  case (Cons a es)
  obtain key val where a: "a = (key, val)" by (cases a)
  show ?case
  proof (cases "hasOwnProperty sl key")
    case True
    then show ?thesis by (simp add: a Cons.IH)
  next
    case False
    let ?st = "(case url val of
                  Some u \<Rightarrow>
                    (if \<not> hasOwnProperty (state_sources st) key \<and> spec_type val = ''vector''
                     then issueFetch env key u st else st)
                | None \<Rightarrow> st)"
    have "(case url val of
                  Some u \<Rightarrow>
                    (if \<not> hasOwnProperty (state_sources (st\<lparr>errors := e\<rparr>)) key \<and> spec_type val = ''vector''
                     then issueFetch env key u (st\<lparr>errors := e\<rparr>) else st\<lparr>errors := e\<rparr>)
                | None \<Rightarrow> st\<lparr>errors := e\<rparr>) = ?st\<lparr>errors := e\<rparr>"
      by (simp add: issueFetch_errors split: option.splits)
    then show ?thesis using False by (simp add: a Let_def Cons.IH)
  qed
qed

lemma fetchSources_errors:
  "fetchSources env (st\<lparr>errors := e\<rparr>) = (fetchSources env st)\<lparr>errors := e\<rparr>"
proof -
  obtain sl' st' where l:
    "fetchSourcesLoop env (sources (mapStyle st)) (state_sources st, st) = (sl', st')"
    by (cases "fetchSourcesLoop env (sources (mapStyle st)) (state_sources st, st)")
  show ?thesis
    by (simp add: fetchSources_def fetchSourcesLoop_errors l)
qed

lemma undo_revisions: "revisions (snd (undo rs)) = revisions rs"
  by (simp add: undo_def Let_def)

lemma redo_revisions: "revisions (snd (redo rs)) = revisions rs"
  by (simp add: redo_def Let_def)

lemma undo_total: "current rs \<noteq> None \<Longrightarrow> fst (undo rs) \<noteq> None"
  by (auto simp: undo_def current_def Let_def split: if_splits)

lemma redo_total: "current rs \<noteq> None \<Longrightarrow> fst (redo rs) \<noteq> None"
  by (auto simp: redo_def current_def Let_def split: if_splits)

lemma withMapStyle_fields:
  "errors (withMapStyle st d) = errors st \<and> infos (withMapStyle st d) = infos st \<and>
   mapStyle (withMapStyle st d) = d \<and>
   selectedLayerIndex (withMapStyle st d) = selectedLayerIndex st \<and>
   state_sources (withMapStyle st d) = state_sources st \<and>
   revisionStore (withMapStyle st d) = revisionStore st \<and>
   saved (withMapStyle st d) = saved st \<and> fetched (withMapStyle st d) = fetched st \<and>
   downloads (withMapStyle st d) = downloads st \<and> console (withMapStyle st d) = console st"
  by (simp add: withMapStyle_def)

lemma onUndo_fields:
  "mapStyle (onUndo env st) = fst (undo (revisionStore st)) \<and>
   revisionStore (onUndo env st) = snd (undo (revisionStore st)) \<and>
   saved (onUndo env st) = saved st @ [fst (undo (revisionStore st))] \<and>
   infos (onUndo env st) = undoMessages env (mapStyle st) (fst (undo (revisionStore st))) \<and>
   errors (onUndo env st) = errors st \<and>
   selectedLayerIndex (onUndo env st) = selectedLayerIndex st \<and>
   state_sources (onUndo env st) = state_sources st \<and> fetched (onUndo env st) = fetched st \<and>
   downloads (onUndo env st) = downloads st \<and> console (onUndo env st) = console st"
  by (cases "undo (revisionStore st)")
     (simp add: onUndo_def saveStyle_def Let_def withMapStyle_fields)

lemma onRedo_fields:
  "mapStyle (onRedo env st) = fst (redo (revisionStore st)) \<and>
   revisionStore (onRedo env st) = snd (redo (revisionStore st)) \<and>
   saved (onRedo env st) = saved st @ [fst (redo (revisionStore st))] \<and>
   infos (onRedo env st) = redoMessages env (mapStyle st) (fst (redo (revisionStore st))) \<and>
   errors (onRedo env st) = errors st \<and>
   selectedLayerIndex (onRedo env st) = selectedLayerIndex st \<and>
   state_sources (onRedo env st) = state_sources st \<and> fetched (onRedo env st) = fetched st \<and>
   downloads (onRedo env st) = downloads st \<and> console (onRedo env st) = console st"
  by (cases "redo (revisionStore st)")
     (simp add: onRedo_def saveStyle_def Let_def withMapStyle_fields)

lemma onUndo_validate: "onUndo (env\<lparr>validate := v\<rparr>) st = onUndo env st"
  by (simp add: onUndo_def split: prod.splits)

lemma onRedo_validate: "onRedo (env\<lparr>validate := v\<rparr>) st = onRedo env st"
  by (simp add: onRedo_def split: prod.splits)

lemma defined_fields:
  "defined r = Some st \<Longrightarrow>
     mapStyle r = Some (mapStyle st) \<and> errors st = errors r \<and> infos st = infos r \<and>
     selectedLayerIndex st = selectedLayerIndex r \<and> state_sources st = state_sources r \<and>
     revisionStore st = revisionStore r \<and> saved st = saved r \<and> fetched st = fetched r \<and>
     downloads st = downloads r \<and> console st = console r"
  by (auto simp: defined_def withMapStyle_fields split: option.splits)

lemma defined_Some: "mapStyle r = Some d \<Longrightarrow> defined r = Some (withMapStyle r d)"
  by (simp add: defined_def)

lemma clamp_range: "0 \<le> hi \<Longrightarrow> 0 \<le> clamp x 0 hi \<and> clamp x 0 hi \<le> hi"
  by (simp add: clamp_def)

lemma clamp_empty: "clamp x 0 (- 1) = 0"
  by (simp add: clamp_def)

lemma onLayersChange_selectedLayerIndex:
  "selectedLayerIndex (onLayersChange env st ls) = selectedLayerIndex st"
  by (simp add: onLayersChange_def onStyleChanged_selectedLayerIndex)

lemma onLayersChange_mapStyle:
  "mapStyle (onLayersChange env st ls) =
     (if validate env ((mapStyle st)\<lparr>layers := ls\<rparr>) = [] then (mapStyle st)\<lparr>layers := ls\<rparr> else mapStyle st)"
  by (simp add: onLayersChange_def onStyleChanged_mapStyle)

lemma indexOfLayer_Some:
  "indexOfLayer ls layerId = Some idx \<Longrightarrow>
     idx < length ls \<and> layer_id (ls ! idx) = layerId \<and> (\<forall>j<idx. layer_id (ls ! j) \<noteq> layerId)"
proof (induction ls arbitrary: idx)
  case Nil
  then show ?case by simp
next
  case (Cons l ls)
  show ?case
  proof (cases "layer_id l = layerId")
    case True
    with Cons.prems show ?thesis by simp
  next
    case False
    with Cons.prems obtain i where i: "indexOfLayer ls layerId = Some i" "idx = Suc i"
      by auto
    from Cons.IH[OF i(1)] False i(2) show ?thesis
      by (auto simp: nth_Cons split: nat.splits)
  qed
qed

lemma indexOfLayer_found:
  "\<exists>l\<in>set ls. layer_id l = layerId \<Longrightarrow> \<exists>idx. indexOfLayer ls layerId = Some idx"
  by (induction ls) auto

lemma onLayersChange_layers:
  "validate env ((mapStyle st)\<lparr>layers := ls\<rparr>) = [] \<Longrightarrow> layers (mapStyle (onLayersChange env st ls)) = ls"
  by (simp add: onLayersChange_mapStyle)

lemma onLayersChange_layers_rejected:
  "validate env ((mapStyle st)\<lparr>layers := ls\<rparr>) \<noteq> [] \<Longrightarrow>
     layers (mapStyle (onLayersChange env st ls)) = layers (mapStyle st)"
  by (simp add: onLayersChange_mapStyle)

lemma onLayersChange_length:
  "length (layers (mapStyle (onLayersChange env st ls))) =
     (if validate env ((mapStyle st)\<lparr>layers := ls\<rparr>) = [] then length ls
      else length (layers (mapStyle st)))"
  by (simp add: onLayersChange_mapStyle)

lemma arrayMove_length: "arrayMove arr i j = Some moved \<Longrightarrow> length moved = length arr"
  by (auto simp: arrayMove_def Let_def split: if_splits)

lemma onMoveLayer_selectionValid:
  assumes "selectionValid st"
  shows "\<exists>st'. onMoveLayer env st i j = Some st' \<and> selectionValid st'"
proof -
  let ?ls = "layers (mapStyle st)"
  let ?o = "clamp i 0 (int (length ?ls) - 1)"
  let ?n = "clamp j 0 (int (length ?ls) - 1)"
  show ?thesis
  proof (cases "?o = ?n")
    case True
    then show ?thesis using assms by (simp add: onMoveLayer_def Let_def)
  next
    case False
    have nonempty: "?ls \<noteq> []"
    proof
      assume "?ls = []"
      then have "?o = 0" "?n = 0" by (simp_all add: clamp_def)
      with False show False by simp
    qed
    then have hi: "0 \<le> int (length ?ls) - 1" by (cases ?ls) simp_all
    from clamp_range[OF hi, of i] clamp_range[OF hi, of j]
    have rng: "0 \<le> ?o" "?o < int (length ?ls)" "0 \<le> ?n" "?n < int (length ?ls)" by auto
    then have "nat ?o < length ?ls" "nat ?n < length ?ls" by simp_all
    then obtain moved where m: "arrayMove ?ls (nat ?o) (nat ?n) = Some moved"
      by (simp add: arrayMove_def Let_def)
    let ?st1 = "(if ?o = selectedLayerIndex st then st\<lparr>selectedLayerIndex := ?n\<rparr> else st)"
    have r: "onMoveLayer env st i j = Some (onLayersChange env ?st1 moved)"
      using False m by (simp add: onMoveLayer_def Let_def)
    have len: "length (layers (mapStyle (onLayersChange env ?st1 moved))) = length ?ls"
      using arrayMove_length[OF m] by (simp add: onLayersChange_length)
    have sel: "selectedLayerIndex (onLayersChange env ?st1 moved) =
        (if ?o = selectedLayerIndex st then ?n else selectedLayerIndex st)"
      by (simp add: onLayersChange_selectedLayerIndex)
    have "selectionValid (onLayersChange env ?st1 moved)"
      using assms rng nonempty unfolding selectionValid_def len sel
      by (simp flip: length_0_conv add: len)
    with r show ?thesis by blast
  qed
qed

lemma remainingLayers_Some:
  "indexOfLayer ls X = Some idx \<Longrightarrow>
     remainingLayers ls X = Some (take idx ls @ drop (Suc idx) ls) \<and>
     length (take idx ls @ drop (Suc idx) ls) = length ls - 1"
  using indexOfLayer_Some[of ls X idx] by (auto simp: remainingLayers_def)

lemma copiedLayers_Some:
  "indexOfLayer ls X = Some idx \<Longrightarrow>
     copiedLayers ls X = Some (take idx ls @ [clonedLayer (ls ! idx)] @ drop idx ls) \<and>
     length (take idx ls @ [clonedLayer (ls ! idx)] @ drop idx ls) = length ls + 1"
  using indexOfLayer_Some[of ls X idx] by (auto simp: copiedLayers_def)

lemma selectionValid_grow:
  assumes "selectionValid st" and "layers (mapStyle st) \<noteq> []"
    and "length (layers (mapStyle st)) \<le> length cs"
  shows "selectionValid (onLayersChange env st cs)"
proof (cases "validate env ((mapStyle st)\<lparr>layers := cs\<rparr>) = []")
  case True
  then have l: "layers (mapStyle (onLayersChange env st cs)) = cs"
    by (rule onLayersChange_layers)
  from assms(1,2) have "0 \<le> selectedLayerIndex st"
    "selectedLayerIndex st < int (length (layers (mapStyle st)))"
    by (simp_all add: selectionValid_def)
  with assms(3) show ?thesis
    by (simp add: selectionValid_def l onLayersChange_selectedLayerIndex)
next
  case False
  then have l: "layers (mapStyle (onLayersChange env st cs)) = layers (mapStyle st)"
    by (rule onLayersChange_layers_rejected)
  from assms(1) show ?thesis
    by (simp add: selectionValid_def l onLayersChange_selectedLayerIndex)
qed

lemma selectionValid_shrink:
  assumes "selectionValid st" and "layers (mapStyle st) \<noteq> []"
    and "length rest = length (layers (mapStyle st)) - 1"
  shows "selectionValid (onLayersChange env st rest) \<longleftrightarrow>
     validate env ((mapStyle st)\<lparr>layers := rest\<rparr>) \<noteq> [] \<or>
     length (layers (mapStyle st)) = 1 \<or>
     selectedLayerIndex st + 1 < int (length (layers (mapStyle st)))"
proof (cases "validate env ((mapStyle st)\<lparr>layers := rest\<rparr>) = []")
  case True
  then have l: "layers (mapStyle (onLayersChange env st rest)) = rest"
    by (rule onLayersChange_layers)
  from assms(1,2) have b: "0 \<le> selectedLayerIndex st"
    "selectedLayerIndex st < int (length (layers (mapStyle st)))"
    by (simp_all add: selectionValid_def)
  have pos: "0 < length (layers (mapStyle st))" using assms(2) by simp
  have r: "rest \<noteq> [] \<longleftrightarrow> length (layers (mapStyle st)) \<noteq> 1"
  proof -
    have "rest = [] \<longleftrightarrow> length rest = 0" by simp
    also have "\<dots> \<longleftrightarrow> length (layers (mapStyle st)) = 1" using assms(3) pos by arith
    finally show ?thesis by simp
  qed
  have "selectionValid (onLayersChange env st rest) \<longleftrightarrow>
      (rest \<noteq> [] \<longrightarrow> selectedLayerIndex st < int (length rest))"
    using b by (simp add: selectionValid_def l onLayersChange_selectedLayerIndex)
  also have "\<dots> \<longleftrightarrow> length (layers (mapStyle st)) = 1 \<or>
      selectedLayerIndex st + 1 < int (length (layers (mapStyle st)))"
    unfolding r assms(3) using pos by arith
  finally show ?thesis using True by simp
next
  case False
  then have l: "layers (mapStyle (onLayersChange env st rest)) = layers (mapStyle st)"
    by (rule onLayersChange_layers_rejected)
  from assms(1) have "selectionValid (onLayersChange env st rest)"
    by (simp add: selectionValid_def l onLayersChange_selectedLayerIndex)
  with False show ?thesis by simp
qed

lemma copy_destroy_selection:
  assumes "indexOfLayer (layers (mapStyle st)) X = Some idx"
  shows "\<exists>c d rest. onLayerCopy env st X = Some c \<and> onLayerDestroy env st X = Some d \<and>
         remainingLayers (layers (mapStyle st)) X = Some rest \<and>
         selectedLayerIndex c = selectedLayerIndex st \<and>
         selectedLayerIndex d = selectedLayerIndex st \<and>
         (selectionValid st \<longrightarrow> selectionValid c) \<and>
         (selectionValid st \<longrightarrow>
            (selectionValid d \<longleftrightarrow>
               validate env ((mapStyle st)\<lparr>layers := rest\<rparr>) \<noteq> [] \<or>
               length (layers (mapStyle st)) = 1 \<or>
               selectedLayerIndex st + 1 < int (length (layers (mapStyle st)))))"
proof -
  define ls where "ls = layers (mapStyle st)"
  define rest where "rest = take idx ls @ drop (Suc idx) ls"
  define cs where "cs = take idx ls @ [clonedLayer (ls ! idx)] @ drop idx ls"
  have idx: "indexOfLayer ls X = Some idx" using assms by (simp add: ls_def)
  have ne: "layers (mapStyle st) \<noteq> []" using assms by auto
  from remainingLayers_Some[OF idx] have r: "remainingLayers (layers (mapStyle st)) X = Some rest"
    and lrest: "length rest = length (layers (mapStyle st)) - 1"
    by (simp_all add: rest_def ls_def)
  from copiedLayers_Some[OF idx] have c: "copiedLayers (layers (mapStyle st)) X = Some cs"
    and lcs: "length (layers (mapStyle st)) \<le> length cs"
    by (simp_all add: cs_def ls_def)
  have oc: "onLayerCopy env st X = Some (onLayersChange env st cs)"
    by (simp add: onLayerCopy_def c)
  have od: "onLayerDestroy env st X = Some (onLayersChange env st rest)"
    by (simp add: onLayerDestroy_def r)
  have vc: "selectionValid st \<longrightarrow> selectionValid (onLayersChange env st cs)"
    using selectionValid_grow[OF _ ne lcs] by blast
  have vd: "selectionValid st \<longrightarrow>
            (selectionValid (onLayersChange env st rest) \<longleftrightarrow>
               validate env ((mapStyle st)\<lparr>layers := rest\<rparr>) \<noteq> [] \<or>
               length (layers (mapStyle st)) = 1 \<or>
               selectedLayerIndex st + 1 < int (length (layers (mapStyle st))))"
    using selectionValid_shrink[OF _ ne lrest] by blast
  from oc od r vc vd onLayersChange_selectedLayerIndex[of env st cs]
    onLayersChange_selectedLayerIndex[of env st rest]
  show ?thesis by blast
qed

lemma toggleVisibility_visibility:
  "visibility (toggleVisibility l) =
     (if visibility l = JStr ''none'' then JStr ''visible'' else JStr ''none'')"
  by (auto simp: visibility_def toggleVisibility_def Let_def update_conv' split: option.splits)

lemma toggleVisibility_twice:
  assumes "visibility l = JStr ''visible'' \<or> visibility l = JStr ''none''"
  shows "toggleVisibility (toggleVisibility l) = l"
proof -
  from assms obtain lo v where lo: "layout l = Some lo" and v: "map_of lo ''visibility'' = Some (JStr v)"
    and vv: "v = ''visible'' \<or> v = ''none''"
    by (auto simp: visibility_def split: option.splits)
  have "AList.update ''visibility'' (JStr v) lo = lo"
    using v by (rule update_triv)
  with lo v vv show ?thesis
    by (auto simp: toggleVisibility_def Let_def update_conv')
qed

lemma toggleVisibility_layer_id: "layer_id (toggleVisibility l) = layer_id l"
  by (simp add: toggleVisibility_def Let_def)

lemma indexOfLayer_ids:
  "map layer_id ls = map layer_id ls' \<Longrightarrow> indexOfLayer ls X = indexOfLayer ls' X"
proof (induction ls arbitrary: ls')
  case Nil
  then show ?case by simp
next
  case (Cons l ls)
  then obtain l' ms where "ls' = l' # ms" by (cases ls') auto
  with Cons show ?case by auto
qed

lemma toggled_ids:
  "idx < length ls \<Longrightarrow> map layer_id (ls[idx := toggleVisibility (ls ! idx)]) = map layer_id ls"
  by (simp add: map_update toggleVisibility_layer_id list_update_same_conv)



lemma fetchSourcesLoop_sourceList:
  "fetchSourcesLoop env es (sl, st) = (sl', st') \<Longrightarrow>
   map_of sl' k =
     (case map_of sl k of
        Some d \<Rightarrow> Some d
      | None \<Rightarrow> map_option (\<lambda>val. \<lparr>desc_type = spec_type val, desc_layers = []\<rparr>) (map_of es k))"
proof (induction es arbitrary: sl st)
  case Nil
  then show ?case by (simp split: option.splits)
next
  case (Cons e es)
  obtain key val where e: "e = (key, val)" by (cases e)
  show ?case
  proof (cases "hasOwnProperty sl key")
    case True
    then have step: "fetchSourcesLoop env es (sl, st) = (sl', st')"
      using Cons.prems by (simp add: e)
    from True have "map_of sl key \<noteq> None" by (simp add: hasOwnProperty_def)
    then show ?thesis using Cons.IH[OF step]
      by (auto simp: e split: option.splits)
  next
    case False
    let ?sl = "AList.update key \<lparr>desc_type = spec_type val, desc_layers = []\<rparr> sl"
    let ?st = "(case url val of
                  Some u \<Rightarrow>
                    (if \<not> hasOwnProperty (state_sources st) key \<and> spec_type val = ''vector''
                     then issueFetch env key u st else st)
                | None \<Rightarrow> st)"
    have step: "fetchSourcesLoop env es (?sl, ?st) = (sl', st')"
      using Cons.prems False by (simp add: e Let_def)
    from False have n: "map_of sl key = None" by (simp add: hasOwnProperty_def)
    show ?thesis using Cons.IH[OF step] n
      by (auto simp: e update_conv' split: option.splits)
  qed
qed

lemma issueFetch_fetched:
  "fetched (issueFetch env key u st) =
     fetched st @ [(key, case normalizeSourceURL env u of Some u' \<Rightarrow> u' | None \<Rightarrow> u)]"
  by (cases "normalizeSourceURL env u") (simp_all add: issueFetch_def)

lemma fetchSourcesLoop_fetched:
  "fetchSourcesLoop env es (sl, st) = (sl', st') \<Longrightarrow>
   \<exists>new. fetched st' = fetched st @ new \<and>
     (\<forall>(k, u)\<in>set new. \<exists>v u0. (k, v) \<in> set es \<and> spec_type v = ''vector'' \<and> url v = Some u0 \<and>
        u = (case normalizeSourceURL env u0 of Some u' \<Rightarrow> u' | None \<Rightarrow> u0))"
proof (induction es arbitrary: sl st)
  case Nil
  then show ?case by simp
next
  case (Cons e es)
  obtain key val where e: "e = (key, val)" by (cases e)
  show ?case
  proof (cases "hasOwnProperty sl key")
    case True
    then have step: "fetchSourcesLoop env es (sl, st) = (sl', st')"
      using Cons.prems by (simp add: e)
    from Cons.IH[OF step] show ?thesis by fastforce
  next
    case False
    let ?sl = "AList.update key \<lparr>desc_type = spec_type val, desc_layers = []\<rparr> sl"
    let ?st = "(case url val of
                  Some u \<Rightarrow>
                    (if \<not> hasOwnProperty (state_sources st) key \<and> spec_type val = ''vector''
                     then issueFetch env key u st else st)
                | None \<Rightarrow> st)"
    have step: "fetchSourcesLoop env es (?sl, ?st) = (sl', st')"
      using Cons.prems False by (simp add: e Let_def)
    from Cons.IH[OF step] obtain new where new: "fetched st' = fetched ?st @ new"
      "\<forall>(k, u)\<in>set new. \<exists>v u0. (k, v) \<in> set es \<and> spec_type v = ''vector'' \<and> url v = Some u0 \<and>
        u = (case normalizeSourceURL env u0 of Some u' \<Rightarrow> u' | None \<Rightarrow> u0)"
      by blast
    have "\<exists>first. fetched ?st = fetched st @ first \<and>
       (\<forall>(k, u)\<in>set first. \<exists>v u0. (k, v) \<in> set (e # es) \<and> spec_type v = ''vector'' \<and> url v = Some u0 \<and>
        u = (case normalizeSourceURL env u0 of Some u' \<Rightarrow> u' | None \<Rightarrow> u0))"
    proof (cases "url val")
      case None
      then show ?thesis by simp
    next
      case (Some u0)
      show ?thesis
      proof (cases "\<not> hasOwnProperty (state_sources st) key \<and> spec_type val = ''vector''")
        case True
        then have "fetched ?st = fetched st @ [(key, case normalizeSourceURL env u0 of Some u' \<Rightarrow> u' | None \<Rightarrow> u0)]"
          by (simp add: Some issueFetch_fetched)
        moreover have "\<exists>v u1. (key, v) \<in> set (e # es) \<and> spec_type v = ''vector'' \<and> url v = Some u1 \<and>
           (case normalizeSourceURL env u0 of Some u' \<Rightarrow> u' | None \<Rightarrow> u0)
             = (case normalizeSourceURL env u1 of Some u' \<Rightarrow> u' | None \<Rightarrow> u1)"
          using True Some e by auto
        ultimately show ?thesis by simp
      next
        case False
        then have "fetched ?st = fetched st" by (auto simp: Some)
        then show ?thesis by simp
      qed
    qed
    then obtain first where first: "fetched ?st = fetched st @ first"
      "\<forall>(k, u)\<in>set first. \<exists>v u0. (k, v) \<in> set (e # es) \<and> spec_type v = ''vector'' \<and> url v = Some u0 \<and>
        u = (case normalizeSourceURL env u0 of Some u' \<Rightarrow> u' | None \<Rightarrow> u0)"
      by blast
    have "fetched st' = fetched st @ (first @ new)" using new(1) first(1) by simp
    moreover have "\<forall>(k, u)\<in>set (first @ new). \<exists>v u0. (k, v) \<in> set (e # es) \<and> spec_type v = ''vector'' \<and> url v = Some u0 \<and>
        u = (case normalizeSourceURL env u0 of Some u' \<Rightarrow> u' | None \<Rightarrow> u0)"
      using new(2) first(2) by fastforce
    ultimately show ?thesis by blast
  qed
qed

lemma fetchSources_state_sources:
  "map_of (state_sources (fetchSources env st)) k =
     (case map_of (state_sources st) k of
        Some d \<Rightarrow> Some d
      | None \<Rightarrow> map_option (\<lambda>val. \<lparr>desc_type = spec_type val, desc_layers = []\<rparr>)
                  (map_of (sources (mapStyle st)) k))"
proof -
  obtain sl' st' where l:
    "fetchSourcesLoop env (sources (mapStyle st)) (state_sources st, st) = (sl', st')"
    by (cases "fetchSourcesLoop env (sources (mapStyle st)) (state_sources st, st)")
  have s: "state_sources (fetchSources env st) = sl'"
    by (simp add: fetchSources_def l)
  show ?thesis unfolding s by (rule fetchSourcesLoop_sourceList[OF l])
qed

lemma fetchSources_fetched:
  "\<exists>new. fetched (fetchSources env st) = fetched st @ new \<and>
     (\<forall>(k, u)\<in>set new. \<exists>v u0. (k, v) \<in> set (sources (mapStyle st)) \<and> spec_type v = ''vector'' \<and>
        url v = Some u0 \<and> u = (case normalizeSourceURL env u0 of Some u' \<Rightarrow> u' | None \<Rightarrow> u0))"
proof -
  obtain sl' st' where l:
    "fetchSourcesLoop env (sources (mapStyle st)) (state_sources st, st) = (sl', st')"
    by (cases "fetchSourcesLoop env (sources (mapStyle st)) (state_sources st, st)")
  have s: "fetched (fetchSources env st) = fetched st'"
    by (simp add: fetchSources_def l)
  show ?thesis unfolding s by (rule fetchSourcesLoop_fetched[OF l])
qed

lemma fetchSettled_roads:
  "map_of (state_sources st) key = Some d \<Longrightarrow>
   state_sources (fetchSettled key u (Body roadsResponse) st)
     = AList.update key (d\<lparr>desc_layers := desc_layers d @ [JStr ''roads'']\<rparr>) (state_sources st)"
  by (simp add: fetchSettled_def roadsResponse_def hasOwnProperty_def)

lemma fetchSettled_throws:
  "jsHasOwnProperty json ''vector_layers'' = Inl e \<Longrightarrow>
     fetchSettled key u (Body json) st = logFetchError u st"
  by (simp add: fetchSettled_def)

lemma fetchSettled_no_property:
  "jsHasOwnProperty json ''vector_layers'' = Inr False \<Longrightarrow> fetchSettled key u (Body json) st = st"
  by (simp add: fetchSettled_def)

lemma logFetchError_frame:
  "errors (logFetchError u st) = errors st \<and> infos (logFetchError u st) = infos st \<and>
   mapStyle (logFetchError u st) = mapStyle st \<and>
   selectedLayerIndex (logFetchError u st) = selectedLayerIndex st \<and>
   state_sources (logFetchError u st) = state_sources st \<and>
   revisionStore (logFetchError u st) = revisionStore st \<and>
   saved (logFetchError u st) = saved st \<and> fetched (logFetchError u st) = fetched st"
  by (simp add: logFetchError_def)


subsection \<open>The key handler\<close>

text \<open>C9: on a host whose platform string contains MAC, meta with Shift and key code 90
  runs \<^verbatim>\<open>onRedo\<close> and meta without Shift and key code 90 runs \<^verbatim>\<open>onUndo\<close>; on
  any other host ctrl with key code 89 runs \<^verbatim>\<open>onRedo\<close> and ctrl with key code 90
  runs \<^verbatim>\<open>onUndo\<close>. One key event invokes at most one handler: what
  \<^verbatim>\<open>handleKeyPress\<close> leaves is the state untouched, or what \<^verbatim>\<open>onUndo\<close> leaves,
  or what \<^verbatim>\<open>onRedo\<close> leaves.\<close>

theorem handleKeyPress_dispatch:
  "(0 \<le> indexOf (toUpperCase platform) ''MAC'' \<and> metaKey e \<and> shiftKey e \<and> keyCode e = 90
      \<longrightarrow> keyActions platform e = [Redo] \<and> handleKeyPress env platform e st = onRedo env st) \<and>
   (0 \<le> indexOf (toUpperCase platform) ''MAC'' \<and> metaKey e \<and> \<not> shiftKey e \<and> keyCode e = 90
      \<longrightarrow> keyActions platform e = [Undo] \<and> handleKeyPress env platform e st = onUndo env st) \<and>
   (indexOf (toUpperCase platform) ''MAC'' < 0 \<and> ctrlKey e \<and> keyCode e = 89
      \<longrightarrow> keyActions platform e = [Redo] \<and> handleKeyPress env platform e st = onRedo env st) \<and>
   (indexOf (toUpperCase platform) ''MAC'' < 0 \<and> ctrlKey e \<and> keyCode e = 90
      \<longrightarrow> keyActions platform e = [Undo] \<and> handleKeyPress env platform e st = onUndo env st) \<and>
   length (keyActions platform e) \<le> 1 \<and>
   handleKeyPress env platform e st =
     (case keyActions platform e of [] \<Rightarrow> untouched st | a # _ \<Rightarrow> runAction env a st) \<and>
   (handleKeyPress env platform e st = untouched st \<or>
    handleKeyPress env platform e st = onUndo env st \<or>
    handleKeyPress env platform e st = onRedo env st)"
  by (simp add: keyActions_def handleKeyPress_def)

theorem handleKeyPress_dispatch_witness:
  "0 \<le> indexOf (toUpperCase ''MacIntel'') ''MAC'' \<and>
   indexOf (toUpperCase ''Win32'') ''MAC'' < 0 \<and>
   keyActions ''MacIntel'' \<lparr>metaKey = True, shiftKey = True, ctrlKey = False, keyCode = 90\<rparr>
     = [Redo] \<and>
   keyActions ''MacIntel'' \<lparr>metaKey = True, shiftKey = False, ctrlKey = False, keyCode = 90\<rparr>
     = [Undo] \<and>
   keyActions ''Win32'' \<lparr>metaKey = False, shiftKey = False, ctrlKey = True, keyCode = 89\<rparr>
     = [Redo] \<and>
   keyActions ''Win32'' \<lparr>metaKey = False, shiftKey = False, ctrlKey = True, keyCode = 90\<rparr>
     = [Undo] \<and>
   mapStyle (handleKeyPress acceptAll ''MacIntel''
      \<lparr>metaKey = True, shiftKey = True, ctrlKey = False, keyCode = 90\<rparr> historyApp) = Some styleC \<and>
   mapStyle (handleKeyPress acceptAll ''MacIntel''
      \<lparr>metaKey = True, shiftKey = False, ctrlKey = False, keyCode = 90\<rparr> historyApp) = Some styleA \<and>
   mapStyle (handleKeyPress acceptAll ''Win32''
      \<lparr>metaKey = False, shiftKey = False, ctrlKey = True, keyCode = 89\<rparr> historyApp) = Some styleC \<and>
   mapStyle (handleKeyPress acceptAll ''Win32''
      \<lparr>metaKey = False, shiftKey = False, ctrlKey = True, keyCode = 90\<rparr> historyApp) = Some styleA"
proof -
  have mac: "0 \<le> indexOf (toUpperCase ''MacIntel'') ''MAC''"
    by (simp add: toUpperCase_def toUpperChar_def)
  have win: "indexOf (toUpperCase ''Win32'') ''MAC'' < 0"
    by (simp add: toUpperCase_def toUpperChar_def)
  have u: "mapStyle (onUndo acceptAll historyApp) = Some styleA"
    by (simp add: onUndo_fields historyApp_def undo_def current_def)
  have r: "mapStyle (onRedo acceptAll historyApp) = Some styleC"
    by (simp add: onRedo_fields historyApp_def redo_def current_def)
  have a: "keyActions ''MacIntel'' \<lparr>metaKey = True, shiftKey = True, ctrlKey = False, keyCode = 90\<rparr>
       = [Redo]"
    "handleKeyPress acceptAll ''MacIntel''
       \<lparr>metaKey = True, shiftKey = True, ctrlKey = False, keyCode = 90\<rparr> historyApp
       = onRedo acceptAll historyApp"
    using mac handleKeyPress_dispatch[of "''MacIntel''"
        "\<lparr>metaKey = True, shiftKey = True, ctrlKey = False, keyCode = 90\<rparr>" acceptAll historyApp]
    by simp_all
  have b: "keyActions ''MacIntel'' \<lparr>metaKey = True, shiftKey = False, ctrlKey = False, keyCode = 90\<rparr>
       = [Undo]"
    "handleKeyPress acceptAll ''MacIntel''
       \<lparr>metaKey = True, shiftKey = False, ctrlKey = False, keyCode = 90\<rparr> historyApp
       = onUndo acceptAll historyApp"
    using mac handleKeyPress_dispatch[of "''MacIntel''"
        "\<lparr>metaKey = True, shiftKey = False, ctrlKey = False, keyCode = 90\<rparr>" acceptAll historyApp]
    by simp_all
  have c: "keyActions ''Win32'' \<lparr>metaKey = False, shiftKey = False, ctrlKey = True, keyCode = 89\<rparr>
       = [Redo]"
    "handleKeyPress acceptAll ''Win32''
       \<lparr>metaKey = False, shiftKey = False, ctrlKey = True, keyCode = 89\<rparr> historyApp
       = onRedo acceptAll historyApp"
    using win handleKeyPress_dispatch[of "''Win32''"
        "\<lparr>metaKey = False, shiftKey = False, ctrlKey = True, keyCode = 89\<rparr>" acceptAll historyApp]
    by simp_all
  have d: "keyActions ''Win32'' \<lparr>metaKey = False, shiftKey = False, ctrlKey = True, keyCode = 90\<rparr>
       = [Undo]"
    "handleKeyPress acceptAll ''Win32''
       \<lparr>metaKey = False, shiftKey = False, ctrlKey = True, keyCode = 90\<rparr> historyApp
       = onUndo acceptAll historyApp"
    using win handleKeyPress_dispatch[of "''Win32''"
        "\<lparr>metaKey = False, shiftKey = False, ctrlKey = True, keyCode = 90\<rparr>" acceptAll historyApp]
    by simp_all
  show ?thesis
    using mac win a(1) b(1) c(1) d(1) by (simp only: a(2) b(2) c(2) d(2) u r simp_thms)
qed

subsection \<open>The mutation pipeline\<close>

text \<open>C1: when validation of the candidate returns errors, \<^verbatim>\<open>onStyleChanged\<close> leaves
  the committed document, the revision store and the log of saves as they were, replaces
  the errors with the validation messages, and still runs \<^verbatim>\<open>fetchSources\<close>: the
  result is that of reconciling the sources of the state with its errors replaced, which
  is also the reconciled state with its errors replaced afterwards.\<close>

theorem onStyleChanged_rejected:
  assumes "validate env newStyle \<noteq> []"
  shows "mapStyle (onStyleChanged env st newStyle save) = mapStyle st \<and>
         revisionStore (onStyleChanged env st newStyle save) = revisionStore st \<and>
         saved (onStyleChanged env st newStyle save) = saved st \<and>
         errors (onStyleChanged env st newStyle save) = map message (validate env newStyle) \<and>
         onStyleChanged env st newStyle save =
           fetchSources env (st\<lparr>errors := map message (validate env newStyle)\<rparr>) \<and>
         onStyleChanged env st newStyle save =
           (fetchSources env st)\<lparr>errors := map message (validate env newStyle)\<rparr>"
proof -
  have eq: "onStyleChanged env st newStyle save =
           fetchSources env (st\<lparr>errors := map message (validate env newStyle)\<rparr>)"
    using assms by (simp add: onStyleChanged_def Let_def)
  show ?thesis
    unfolding eq by (simp add: fetchSources_frame fetchSources_errors)
qed

theorem onStyleChanged_rejected_witness:
  "validate rejectAll emptyStyle \<noteq> [] \<and>
   mapStyle (onStyleChanged rejectAll (initialApp\<lparr>mapStyle := vectorStyle\<rparr>) emptyStyle True)
     = vectorStyle \<and>
   revisionStore (onStyleChanged rejectAll (initialApp\<lparr>mapStyle := vectorStyle\<rparr>) emptyStyle True)
     = revisionStore initialApp \<and>
   saved (onStyleChanged rejectAll (initialApp\<lparr>mapStyle := vectorStyle\<rparr>) emptyStyle True)
     = saved initialApp \<and>
   errors (onStyleChanged rejectAll (initialApp\<lparr>mapStyle := vectorStyle\<rparr>) emptyStyle True)
     = [''layers: array expected'']"
proof -
  have h: "validate rejectAll emptyStyle \<noteq> []" by (simp add: rejectAll_def)
  have v: "map message (validate rejectAll emptyStyle) = [''layers: array expected'']"
    by (simp add: rejectAll_def)
  note t = onStyleChanged_rejected[OF h, of "initialApp\<lparr>mapStyle := vectorStyle\<rparr>" True]
  from t have
    "mapStyle (onStyleChanged rejectAll (initialApp\<lparr>mapStyle := vectorStyle\<rparr>) emptyStyle True)
       = mapStyle (initialApp\<lparr>mapStyle := vectorStyle\<rparr>)"
    "revisionStore (onStyleChanged rejectAll (initialApp\<lparr>mapStyle := vectorStyle\<rparr>) emptyStyle True)
       = revisionStore (initialApp\<lparr>mapStyle := vectorStyle\<rparr>)"
    "saved (onStyleChanged rejectAll (initialApp\<lparr>mapStyle := vectorStyle\<rparr>) emptyStyle True)
       = saved (initialApp\<lparr>mapStyle := vectorStyle\<rparr>)"
    "errors (onStyleChanged rejectAll (initialApp\<lparr>mapStyle := vectorStyle\<rparr>) emptyStyle True)
       = map message (validate rejectAll emptyStyle)"
    by blast+
  with h v show ?thesis by simp
qed

text \<open>C8 (amended): every run of \<^verbatim>\<open>onStyleChanged\<close>, accepted or rejected,
  replaces the errors with the messages of this run's validation (none when it is
  accepted), whatever they were before; the infos are not touched and keep the messages
  of an earlier undo or redo.\<close>

theorem onStyleChanged_messages:
  "errors (onStyleChanged env st newStyle save) = map message (validate env newStyle) \<and>
   infos (onStyleChanged env st newStyle save) = infos st"
  by (simp add: onStyleChanged_errors onStyleChanged_infos)


text \<open>After an undo has set the infos, a pipeline run, accepted or rejected, leaves them
  in place.\<close>

theorem onStyleChanged_infos_counterexample:
  "map_option (\<lambda>s. infos (onStyleChanged acceptAll s emptyStyle True))
     (defined (onUndo acceptAll (appWith [mkLayer ''A''] 0))) = Some [''undo''] \<and>
   map_option (\<lambda>s. infos (onStyleChanged rejectAll s emptyStyle True))
     (defined (onUndo acceptAll (appWith [mkLayer ''A''] 0))) = Some [''undo'']"
proof -
  have m: "mapStyle (onUndo acceptAll (appWith [mkLayer ''A''] 0))
      = Some (emptyStyle\<lparr>layers := [mkLayer ''A'']\<rparr>)"
    by (simp add: onUndo_fields undo_def current_def appWith_def)
  have i: "infos (onUndo acceptAll (appWith [mkLayer ''A''] 0)) = [''undo'']"
    by (simp add: onUndo_fields acceptAll_def)
  show ?thesis
    by (simp add: defined_Some[OF m] onStyleChanged_infos withMapStyle_fields i)
qed

subsection \<open>Undo and redo\<close>

text \<open>C5: for every state, \<^verbatim>\<open>onUndo\<close> and \<^verbatim>\<open>onRedo\<close> leave the store's
  revisions as they were (nothing is appended; the store is the one its own
  \<^verbatim>\<open>undo\<close>/\<^verbatim>\<open>redo\<close> leaves); their result does not depend on the validator
  (none is run); what the store returns is the one save that is made and becomes the
  document; the infos become the diff messages between the document before and what the
  store returned; the errors stay. This covers the store without revisions, where what
  is returned, saved and stored is \<^verbatim>\<open>undefined\<close>. When the store has a current
  revision, the new document is defined.\<close>

theorem onUndo_onRedo_spec:
  "revisions (revisionStore (onUndo env st)) = revisions (revisionStore st) \<and>
   revisions (revisionStore (onRedo env st)) = revisions (revisionStore st) \<and>
   revisionStore (onUndo env st) = snd (undo (revisionStore st)) \<and>
   revisionStore (onRedo env st) = snd (redo (revisionStore st)) \<and>
   onUndo (env\<lparr>validate := v\<rparr>) st = onUndo env st \<and>
   onRedo (env\<lparr>validate := v\<rparr>) st = onRedo env st \<and>
   mapStyle (onUndo env st) = fst (undo (revisionStore st)) \<and>
   mapStyle (onRedo env st) = fst (redo (revisionStore st)) \<and>
   saved (onUndo env st) = saved st @ [fst (undo (revisionStore st))] \<and>
   saved (onRedo env st) = saved st @ [fst (redo (revisionStore st))] \<and>
   infos (onUndo env st) = undoMessages env (mapStyle st) (fst (undo (revisionStore st))) \<and>
   infos (onRedo env st) = redoMessages env (mapStyle st) (fst (redo (revisionStore st))) \<and>
   errors (onUndo env st) = errors st \<and> errors (onRedo env st) = errors st \<and>
   (current (revisionStore st) \<noteq> None \<longrightarrow>
      (\<exists>u r. defined (onUndo env st) = Some u \<and> defined (onRedo env st) = Some r \<and>
         fst (undo (revisionStore st)) = Some (mapStyle u) \<and>
         fst (redo (revisionStore st)) = Some (mapStyle r) \<and>
         saved u = saved st @ [Some (mapStyle u)] \<and>
         saved r = saved st @ [Some (mapStyle r)] \<and>
         infos u = undoMessages env (mapStyle st) (Some (mapStyle u)) \<and>
         infos r = redoMessages env (mapStyle st) (Some (mapStyle r)) \<and>
         revisions (revisionStore u) = revisions (revisionStore st) \<and>
         revisions (revisionStore r) = revisions (revisionStore st) \<and>
         errors u = errors st \<and> errors r = errors st))"
proof -
  have always:
    "revisions (revisionStore (onUndo env st)) = revisions (revisionStore st)"
    "revisions (revisionStore (onRedo env st)) = revisions (revisionStore st)"
    "revisionStore (onUndo env st) = snd (undo (revisionStore st))"
    "revisionStore (onRedo env st) = snd (redo (revisionStore st))"
    "onUndo (env\<lparr>validate := v\<rparr>) st = onUndo env st"
    "onRedo (env\<lparr>validate := v\<rparr>) st = onRedo env st"
    "mapStyle (onUndo env st) = fst (undo (revisionStore st))"
    "mapStyle (onRedo env st) = fst (redo (revisionStore st))"
    "saved (onUndo env st) = saved st @ [fst (undo (revisionStore st))]"
    "saved (onRedo env st) = saved st @ [fst (redo (revisionStore st))]"
    "infos (onUndo env st) = undoMessages env (mapStyle st) (fst (undo (revisionStore st)))"
    "infos (onRedo env st) = redoMessages env (mapStyle st) (fst (redo (revisionStore st)))"
    "errors (onUndo env st) = errors st" "errors (onRedo env st) = errors st"
    by (simp_all add: onUndo_fields onRedo_fields undo_revisions redo_revisions
        onUndo_validate onRedo_validate)
  have some: "current (revisionStore st) \<noteq> None \<longrightarrow>
      (\<exists>u r. defined (onUndo env st) = Some u \<and> defined (onRedo env st) = Some r \<and>
         fst (undo (revisionStore st)) = Some (mapStyle u) \<and>
         fst (redo (revisionStore st)) = Some (mapStyle r) \<and>
         saved u = saved st @ [Some (mapStyle u)] \<and>
         saved r = saved st @ [Some (mapStyle r)] \<and>
         infos u = undoMessages env (mapStyle st) (Some (mapStyle u)) \<and>
         infos r = redoMessages env (mapStyle st) (Some (mapStyle r)) \<and>
         revisions (revisionStore u) = revisions (revisionStore st) \<and>
         revisions (revisionStore r) = revisions (revisionStore st) \<and>
         errors u = errors st \<and> errors r = errors st)"
  proof
    assume c: "current (revisionStore st) \<noteq> None"
    from undo_total[OF c] obtain a where a: "fst (undo (revisionStore st)) = Some a" by auto
    from redo_total[OF c] obtain b where b: "fst (redo (revisionStore st)) = Some b" by auto
    have ma: "mapStyle (onUndo env st) = Some a" using always(7) a by simp
    have mb: "mapStyle (onRedo env st) = Some b" using always(8) b by simp
    let ?u = "withMapStyle (onUndo env st) a"
    let ?r = "withMapStyle (onRedo env st) b"
    have du: "defined (onUndo env st) = Some ?u" by (rule defined_Some[OF ma])
    have dr: "defined (onRedo env st) = Some ?r" by (rule defined_Some[OF mb])
    have fu: "fst (undo (revisionStore st)) = Some (mapStyle ?u)"
      "saved ?u = saved st @ [Some (mapStyle ?u)]"
      "infos ?u = undoMessages env (mapStyle st) (Some (mapStyle ?u))"
      "revisions (revisionStore ?u) = revisions (revisionStore st)"
      "errors ?u = errors st"
      using always a by (simp_all add: withMapStyle_fields)
    have fr: "fst (redo (revisionStore st)) = Some (mapStyle ?r)"
      "saved ?r = saved st @ [Some (mapStyle ?r)]"
      "infos ?r = redoMessages env (mapStyle st) (Some (mapStyle ?r))"
      "revisions (revisionStore ?r) = revisions (revisionStore st)"
      "errors ?r = errors st"
      using always b by (simp_all add: withMapStyle_fields)
    from du dr fu fr
    show "\<exists>u r. defined (onUndo env st) = Some u \<and> defined (onRedo env st) = Some r \<and>
         fst (undo (revisionStore st)) = Some (mapStyle u) \<and>
         fst (redo (revisionStore st)) = Some (mapStyle r) \<and>
         saved u = saved st @ [Some (mapStyle u)] \<and>
         saved r = saved st @ [Some (mapStyle r)] \<and>
         infos u = undoMessages env (mapStyle st) (Some (mapStyle u)) \<and>
         infos r = redoMessages env (mapStyle st) (Some (mapStyle r)) \<and>
         revisions (revisionStore u) = revisions (revisionStore st) \<and>
         revisions (revisionStore r) = revisions (revisionStore st) \<and>
         errors u = errors st \<and> errors r = errors st"
      by blast
  qed
  from always some show ?thesis by blast
qed

theorem onUndo_onRedo_spec_witness:
  "current (revisionStore historyApp) \<noteq> None \<and>
   mapStyle (onUndo rejectAll historyApp) = Some styleA \<and>
   mapStyle (onRedo rejectAll historyApp) = Some styleC \<and>
   revisions (revisionStore (onUndo rejectAll historyApp)) = [styleA, styleB, styleC] \<and>
   revisions (revisionStore (onRedo rejectAll historyApp)) = [styleA, styleB, styleC] \<and>
   saved (onUndo rejectAll historyApp) = [Some styleA] \<and>
   saved (onRedo rejectAll historyApp) = [Some styleC] \<and>
   infos (onUndo rejectAll historyApp) = [''undo''] \<and>
   infos (onRedo rejectAll historyApp) = [''redo''] \<and>
   map_option mapStyle (defined (onUndo rejectAll historyApp)) = Some styleA \<and>
   map_option mapStyle (defined (onRedo rejectAll historyApp)) = Some styleC \<and>
   current (revisionStore initialApp) = None \<and>
   mapStyle (onUndo rejectAll initialApp) = None \<and>
   mapStyle (onRedo rejectAll initialApp) = None \<and>
   revisions (revisionStore (onUndo rejectAll initialApp)) = [] \<and>
   revisions (revisionStore (onRedo rejectAll initialApp)) = [] \<and>
   saved (onUndo rejectAll initialApp) = [None] \<and>
   saved (onRedo rejectAll initialApp) = [None] \<and>
   errors (onUndo rejectAll initialApp) = [] \<and>
   errors (onRedo rejectAll initialApp) = []"
proof -
  have h: "current (revisionStore historyApp) \<noteq> None"
    by (simp add: historyApp_def current_def)
  have u: "fst (undo (revisionStore historyApp)) = Some styleA"
    by (simp add: historyApp_def undo_def current_def)
  have r: "fst (redo (revisionStore historyApp)) = Some styleC"
    by (simp add: historyApp_def redo_def current_def)
  have s: "saved historyApp = []" "revisions (revisionStore historyApp) = [styleA, styleB, styleC]"
    by (simp_all add: historyApp_def initialApp_def)
  have m: "undoMessages rejectAll d a = [''undo'']" "redoMessages rejectAll d a = [''redo'']" for d a
    by (simp_all add: rejectAll_def acceptAll_def)
  have e: "current (revisionStore initialApp) = None"
    "fst (undo (revisionStore initialApp)) = None" "fst (redo (revisionStore initialApp)) = None"
    "saved initialApp = []" "revisions (revisionStore initialApp) = []" "errors initialApp = []"
    by (simp_all add: initialApp_def emptyRevisionStore_def undo_def redo_def current_def)
  note t = onUndo_onRedo_spec[of rejectAll historyApp "validate rejectAll"]
  note t0 = onUndo_onRedo_spec[of rejectAll initialApp "validate rejectAll"]
  from t h obtain u' r' where d: "defined (onUndo rejectAll historyApp) = Some u'"
    "defined (onRedo rejectAll historyApp) = Some r'"
    "fst (undo (revisionStore historyApp)) = Some (mapStyle u')"
    "fst (redo (revisionStore historyApp)) = Some (mapStyle r')"
    by blast
  have d': "map_option mapStyle (defined (onUndo rejectAll historyApp)) = Some styleA"
    "map_option mapStyle (defined (onRedo rejectAll historyApp)) = Some styleC"
    using d u r by simp_all
  from t have f:
    "mapStyle (onUndo rejectAll historyApp) = fst (undo (revisionStore historyApp))"
    "mapStyle (onRedo rejectAll historyApp) = fst (redo (revisionStore historyApp))"
    "revisions (revisionStore (onUndo rejectAll historyApp)) = revisions (revisionStore historyApp)"
    "revisions (revisionStore (onRedo rejectAll historyApp)) = revisions (revisionStore historyApp)"
    "saved (onUndo rejectAll historyApp) = saved historyApp @ [fst (undo (revisionStore historyApp))]"
    "saved (onRedo rejectAll historyApp) = saved historyApp @ [fst (redo (revisionStore historyApp))]"
    "infos (onUndo rejectAll historyApp)
       = undoMessages rejectAll (mapStyle historyApp) (fst (undo (revisionStore historyApp)))"
    "infos (onRedo rejectAll historyApp)
       = redoMessages rejectAll (mapStyle historyApp) (fst (redo (revisionStore historyApp)))"
    by blast+
  from t0 have f0:
    "mapStyle (onUndo rejectAll initialApp) = fst (undo (revisionStore initialApp))"
    "mapStyle (onRedo rejectAll initialApp) = fst (redo (revisionStore initialApp))"
    "revisions (revisionStore (onUndo rejectAll initialApp)) = revisions (revisionStore initialApp)"
    "revisions (revisionStore (onRedo rejectAll initialApp)) = revisions (revisionStore initialApp)"
    "saved (onUndo rejectAll initialApp) = saved initialApp @ [fst (undo (revisionStore initialApp))]"
    "saved (onRedo rejectAll initialApp) = saved initialApp @ [fst (redo (revisionStore initialApp))]"
    "errors (onUndo rejectAll initialApp) = errors initialApp"
    "errors (onRedo rejectAll initialApp) = errors initialApp"
    by blast+
  show ?thesis
    using h d' by (simp add: f f0 u r s m e)
qed

subsection \<open>Moving a layer\<close>

text \<open>C4: \<^verbatim>\<open>onMoveLayer\<close> clamps both indices into \<open>[0, length - 1]\<close> (for a list
  that is not empty); when the clamped indices are equal nothing changes; otherwise the
  selection becomes the clamped new index exactly when the clamped old index is the
  selection, and the moved list is submitted and becomes the layer list when the
  validator accepts it. On \<open>[a, b, c]\<close> with selection 1, moving 0 to 2 submits
  \<open>[b, c, a]\<close> and leaves the selection at 1, now on \<open>c\<close>.\<close>

theorem onMoveLayer_spec:
  "(layers (mapStyle st) \<noteq> [] \<longrightarrow>
      0 \<le> clamp oldIndex 0 (int (length (layers (mapStyle st))) - 1) \<and>
      clamp oldIndex 0 (int (length (layers (mapStyle st))) - 1) \<le> int (length (layers (mapStyle st))) - 1 \<and>
      0 \<le> clamp newIndex 0 (int (length (layers (mapStyle st))) - 1) \<and>
      clamp newIndex 0 (int (length (layers (mapStyle st))) - 1) \<le> int (length (layers (mapStyle st))) - 1) \<and>
   (clamp oldIndex 0 (int (length (layers (mapStyle st))) - 1)
      = clamp newIndex 0 (int (length (layers (mapStyle st))) - 1) \<longrightarrow>
      onMoveLayer env st oldIndex newIndex = Some st) \<and>
   (clamp oldIndex 0 (int (length (layers (mapStyle st))) - 1)
      \<noteq> clamp newIndex 0 (int (length (layers (mapStyle st))) - 1) \<longrightarrow>
      (\<exists>st' moved. onMoveLayer env st oldIndex newIndex = Some st' \<and>
         selectedLayerIndex st' =
           (if clamp oldIndex 0 (int (length (layers (mapStyle st))) - 1) = selectedLayerIndex st
            then clamp newIndex 0 (int (length (layers (mapStyle st))) - 1)
            else selectedLayerIndex st) \<and>
         arrayMove (layers (mapStyle st))
           (nat (clamp oldIndex 0 (int (length (layers (mapStyle st))) - 1)))
           (nat (clamp newIndex 0 (int (length (layers (mapStyle st))) - 1))) = Some moved \<and>
         mapStyle st' =
           (if validate env ((mapStyle st)\<lparr>layers := moved\<rparr>) = []
            then (mapStyle st)\<lparr>layers := moved\<rparr> else mapStyle st))) \<and>
   (layers (mapStyle st) = [a, b, c] \<and> selectedLayerIndex st = 1 \<longrightarrow>
      (\<exists>st'. onMoveLayer env st 0 2 = Some st' \<and> selectedLayerIndex st' = 1 \<and>
         arrayMove [a, b, c] 0 2 = Some [b, c, a] \<and>
         (validate env ((mapStyle st)\<lparr>layers := [b, c, a]\<rparr>) = [] \<longrightarrow>
            layers (mapStyle st') = [b, c, a] \<and> layers (mapStyle st') ! 1 = c)))"
proof -
  let ?ls = "layers (mapStyle st)"
  let ?o = "clamp oldIndex 0 (int (length ?ls) - 1)"
  let ?n = "clamp newIndex 0 (int (length ?ls) - 1)"
  have rng: "?ls \<noteq> [] \<longrightarrow> 0 \<le> ?o \<and> ?o \<le> int (length ?ls) - 1 \<and> 0 \<le> ?n \<and> ?n \<le> int (length ?ls) - 1"
    by (cases ?ls) (simp_all add: clamp_def)
  have noop: "?o = ?n \<longrightarrow> onMoveLayer env st oldIndex newIndex = Some st"
    by (simp add: onMoveLayer_def Let_def)
  have mv: "?o \<noteq> ?n \<longrightarrow>
      (\<exists>st' moved. onMoveLayer env st oldIndex newIndex = Some st' \<and>
         selectedLayerIndex st' = (if ?o = selectedLayerIndex st then ?n else selectedLayerIndex st) \<and>
         arrayMove ?ls (nat ?o) (nat ?n) = Some moved \<and>
         mapStyle st' =
           (if validate env ((mapStyle st)\<lparr>layers := moved\<rparr>) = []
            then (mapStyle st)\<lparr>layers := moved\<rparr> else mapStyle st))"
  proof
    assume ne: "?o \<noteq> ?n"
    have nonempty: "?ls \<noteq> []"
    proof
      assume "?ls = []"
      then have "?o = 0" "?n = 0" by (simp_all add: clamp_def)
      with ne show False by simp
    qed
    with rng have inr: "nat ?o < length ?ls" "nat ?n < length ?ls" by auto
    then obtain moved where m: "arrayMove ?ls (nat ?o) (nat ?n) = Some moved"
      by (simp add: arrayMove_def Let_def)
    show "\<exists>st' moved. onMoveLayer env st oldIndex newIndex = Some st' \<and>
         selectedLayerIndex st' = (if ?o = selectedLayerIndex st then ?n else selectedLayerIndex st) \<and>
         arrayMove ?ls (nat ?o) (nat ?n) = Some moved \<and>
         mapStyle st' =
           (if validate env ((mapStyle st)\<lparr>layers := moved\<rparr>) = []
            then (mapStyle st)\<lparr>layers := moved\<rparr> else mapStyle st)"
      using ne m
      by (simp add: onMoveLayer_def Let_def onLayersChange_selectedLayerIndex onLayersChange_mapStyle)
  qed
  have sc: "?ls = [a, b, c] \<and> selectedLayerIndex st = 1 \<longrightarrow>
      (\<exists>st'. onMoveLayer env st 0 2 = Some st' \<and> selectedLayerIndex st' = 1 \<and>
         arrayMove [a, b, c] 0 2 = Some [b, c, a] \<and>
         (validate env ((mapStyle st)\<lparr>layers := [b, c, a]\<rparr>) = [] \<longrightarrow>
            layers (mapStyle st') = [b, c, a] \<and> layers (mapStyle st') ! 1 = c))"
    by (simp add: onMoveLayer_def Let_def clamp_def arrayMove_def
        onLayersChange_selectedLayerIndex onLayersChange_mapStyle)
  from rng noop mv sc show ?thesis by blast
qed


theorem onMoveLayer_spec_witness:
  "layers (mapStyle (appWith [mkLayer ''A'', mkLayer ''B'', mkLayer ''C''] 1)) \<noteq> [] \<and>
   clamp 5 0 (int (length (layers (mapStyle (appWith [mkLayer ''A'', mkLayer ''B'', mkLayer ''C''] 1)))) - 1)
     = clamp 7 0 (int (length (layers (mapStyle (appWith [mkLayer ''A'', mkLayer ''B'', mkLayer ''C''] 1)))) - 1) \<and>
   onMoveLayer acceptAll (appWith [mkLayer ''A'', mkLayer ''B'', mkLayer ''C''] 1) 5 7
     = Some (appWith [mkLayer ''A'', mkLayer ''B'', mkLayer ''C''] 1) \<and>
   map_option selectedLayerIndex
     (onMoveLayer acceptAll (appWith [mkLayer ''A'', mkLayer ''B'', mkLayer ''C''] 1) 1 0) = Some 0 \<and>
   map_option selectedLayerIndex
     (onMoveLayer acceptAll (appWith [mkLayer ''A'', mkLayer ''B'', mkLayer ''C''] 1) 0 2) = Some 1 \<and>
   map_option (layers \<circ> mapStyle)
     (onMoveLayer acceptAll (appWith [mkLayer ''A'', mkLayer ''B'', mkLayer ''C''] 1) 0 2)
     = Some [mkLayer ''B'', mkLayer ''C'', mkLayer ''A'']"
proof -
  let ?st = "appWith [mkLayer ''A'', mkLayer ''B'', mkLayer ''C''] 1"
  have l: "layers (mapStyle ?st) = [mkLayer ''A'', mkLayer ''B'', mkLayer ''C'']"
    and sel: "selectedLayerIndex ?st = 1"
    by (simp_all add: appWith_def)
  have v: "validate acceptAll d = []" for d by (simp add: acceptAll_def)
  have ne: "layers (mapStyle ?st) \<noteq> []" using l by simp
  have c57: "clamp 5 0 (int (length (layers (mapStyle ?st))) - 1)
     = clamp 7 0 (int (length (layers (mapStyle ?st))) - 1)"
    by (simp add: l clamp_def)
  have c10: "clamp 1 0 (int (length (layers (mapStyle ?st))) - 1) = 1"
       "clamp 0 0 (int (length (layers (mapStyle ?st))) - 1) = 0"
    by (simp_all add: l clamp_def)
  have noop: "onMoveLayer acceptAll ?st 5 7 = Some ?st"
    using onMoveLayer_spec[of ?st 5 7 acceptAll] c57 by blast
  have d10: "clamp 1 0 (int (length (layers (mapStyle ?st))) - 1)
      \<noteq> clamp 0 0 (int (length (layers (mapStyle ?st))) - 1)"
    by (simp add: c10)
  obtain st1 where s1: "onMoveLayer acceptAll ?st 1 0 = Some st1"
    "selectedLayerIndex st1 =
       (if clamp 1 0 (int (length (layers (mapStyle ?st))) - 1) = selectedLayerIndex ?st
        then clamp 0 0 (int (length (layers (mapStyle ?st))) - 1)
        else selectedLayerIndex ?st)"
    using onMoveLayer_spec[of ?st 1 0 acceptAll] d10 by blast
  have follow: "map_option selectedLayerIndex (onMoveLayer acceptAll ?st 1 0) = Some 0"
    using s1 by (simp add: c10 sel)
  obtain st' where s: "onMoveLayer acceptAll ?st 0 2 = Some st'" "selectedLayerIndex st' = 1"
    "validate acceptAll ((mapStyle ?st)\<lparr>layers := [mkLayer ''B'', mkLayer ''C'', mkLayer ''A'']\<rparr>) = []
       \<longrightarrow> layers (mapStyle st') = [mkLayer ''B'', mkLayer ''C'', mkLayer ''A'']"
    using onMoveLayer_spec[of ?st 0 2 acceptAll "mkLayer ''A''" "mkLayer ''B''" "mkLayer ''C''"] l sel
    by blast
  show ?thesis using ne c57 noop follow s v by simp
qed

subsection \<open>Copying a layer\<close>

text \<open>C2 (amended): for a layer list of length L that has a layer with id X,
  \<^verbatim>\<open>onLayerCopy\<close> submits a list of length L + 1 in which the copy, equal to the
  first layer with id X except for its id X-copy, stands at the position of the original
  and the original follows it at once: the copy is placed immediately before the
  original. When no layer of the list had the id X-copy, exactly one layer of the new
  list has it. The submitted list becomes the layer list when the validator accepts
  it.\<close>

theorem onLayerCopy_spec:
  assumes "\<exists>l\<in>set ls. layer_id l = X"
  shows "\<exists>idx cs. indexOfLayer ls X = Some idx \<and> copiedLayers ls X = Some cs \<and>
     idx < length ls \<and> layer_id (ls ! idx) = X \<and>
     cs = take idx ls @ [(ls ! idx)\<lparr>layer_id := X @ ''-copy''\<rparr>] @ drop idx ls \<and>
     length cs = length ls + 1 \<and>
     cs ! idx = (ls ! idx)\<lparr>layer_id := X @ ''-copy''\<rparr> \<and>
     cs ! (idx + 1) = ls ! idx \<and>
     ((\<forall>l\<in>set ls. layer_id l \<noteq> X @ ''-copy'') \<longrightarrow>
        length (filter (\<lambda>l. layer_id l = X @ ''-copy'') cs) = 1) \<and>
     (layers (mapStyle st) = ls \<longrightarrow>
        (\<exists>st'. onLayerCopy env st X = Some st' \<and>
           mapStyle st' =
             (if validate env ((mapStyle st)\<lparr>layers := cs\<rparr>) = []
              then (mapStyle st)\<lparr>layers := cs\<rparr> else mapStyle st)))"
proof -
  obtain idx where idx: "indexOfLayer ls X = Some idx"
    using indexOfLayer_found[OF assms] by blast
  from indexOfLayer_Some[OF idx] have lt: "idx < length ls" and id: "layer_id (ls ! idx) = X"
    by simp_all
  let ?c = "(ls ! idx)\<lparr>layer_id := X @ ''-copy''\<rparr>"
  let ?cs = "take idx ls @ [?c] @ drop idx ls"
  have cs: "copiedLayers ls X = Some ?cs"
    by (simp add: copiedLayers_def idx clonedLayer_def id)
  have len: "length ?cs = length ls + 1" using lt by simp
  have at: "?cs ! idx = ?c" using lt by (simp add: nth_append)
  have nxt: "?cs ! (idx + 1) = ls ! idx" using lt by (simp add: nth_append)
  have one: "(\<forall>l\<in>set ls. layer_id l \<noteq> X @ ''-copy'') \<longrightarrow>
        length (filter (\<lambda>l. layer_id l = X @ ''-copy'') ?cs) = 1"
  proof
    assume a: "\<forall>l\<in>set ls. layer_id l \<noteq> X @ ''-copy''"
    have "filter (\<lambda>l. layer_id l = X @ ''-copy'') (take idx ls) = []"
      using a by (auto simp: filter_empty_conv dest: in_set_takeD)
    moreover have "filter (\<lambda>l. layer_id l = X @ ''-copy'') (drop idx ls) = []"
      using a by (auto simp: filter_empty_conv dest: in_set_dropD)
    ultimately show "length (filter (\<lambda>l. layer_id l = X @ ''-copy'') ?cs) = 1"
      by simp
  qed
  have pl: "layers (mapStyle st) = ls \<longrightarrow>
        (\<exists>st'. onLayerCopy env st X = Some st' \<and>
           mapStyle st' =
             (if validate env ((mapStyle st)\<lparr>layers := ?cs\<rparr>) = []
              then (mapStyle st)\<lparr>layers := ?cs\<rparr> else mapStyle st))"
    using cs by (simp add: onLayerCopy_def onLayersChange_mapStyle)
  from idx cs lt id len at nxt one pl show ?thesis by blast
qed


text \<open>Copying A in \<open>[A, B]\<close> puts A-copy in front of A, not behind it; copying A when
  A-copy is already there gives two layers with the id A-copy.\<close>

theorem onLayerCopy_counterexample:
  "copiedLayers [mkLayer ''A'', mkLayer ''B''] ''A''
     = Some [mkLayer ''A-copy'', mkLayer ''A'', mkLayer ''B''] \<and>
   map_option (layers \<circ> mapStyle) (onLayerCopy acceptAll (appWith [mkLayer ''A'', mkLayer ''B''] 0) ''A'')
     = Some [mkLayer ''A-copy'', mkLayer ''A'', mkLayer ''B''] \<and>
   map_option (\<lambda>cs. length (filter (\<lambda>l. layer_id l = ''A-copy'') cs))
     (copiedLayers [mkLayer ''A'', mkLayer ''A-copy''] ''A'') = Some 2"
  by (simp add: copiedLayers_def clonedLayer_def mkLayer_def onLayerCopy_def onLayersChange_mapStyle
      appWith_def acceptAll_def)

theorem onLayerCopy_spec_witness:
  "(\<exists>l\<in>set [mkLayer ''A'', mkLayer ''B'']. layer_id l = ''B'') \<and>
   ''B-copy'' \<notin> set (map layer_id [mkLayer ''A'', mkLayer ''B'']) \<and>
   copiedLayers [mkLayer ''A'', mkLayer ''B''] ''B''
     = Some [mkLayer ''A'', mkLayer ''B-copy'', mkLayer ''B''] \<and>
   map_option (\<lambda>cs. length (filter (\<lambda>l. layer_id l = ''B-copy'') cs))
     (copiedLayers [mkLayer ''A'', mkLayer ''B''] ''B'') = Some 1 \<and>
   map_option (layers \<circ> mapStyle) (onLayerCopy acceptAll (appWith [mkLayer ''A'', mkLayer ''B''] 0) ''B'')
     = Some [mkLayer ''A'', mkLayer ''B-copy'', mkLayer ''B'']"
proof -
  let ?ls = "[mkLayer ''A'', mkLayer ''B'']"
  have h: "\<exists>l\<in>set ?ls. layer_id l = ''B''" by (simp add: mkLayer_def)
  have n: "\<forall>l\<in>set ?ls. layer_id l \<noteq> ''B'' @ ''-copy''" by (simp add: mkLayer_def)
  have n': "''B-copy'' \<notin> set (map layer_id ?ls)" by (simp add: mkLayer_def)
  have i: "indexOfLayer ?ls ''B'' = Some 1" by (simp add: mkLayer_def)
  have l: "layers (mapStyle (appWith ?ls 0)) = ?ls" by (simp add: appWith_def)
  have v: "validate acceptAll d = []" for d by (simp add: acceptAll_def)
  from onLayerCopy_spec[OF h, of "appWith ?ls 0" acceptAll] i l n
  obtain cs st' where c: "copiedLayers ?ls ''B'' = Some cs"
     "cs = take 1 ?ls @ [(?ls ! 1)\<lparr>layer_id := ''B'' @ ''-copy''\<rparr>] @ drop 1 ?ls"
     "length (filter (\<lambda>l. layer_id l = ''B'' @ ''-copy'') cs) = 1"
     "onLayerCopy acceptAll (appWith ?ls 0) ''B'' = Some st'"
     "mapStyle st' = (if validate acceptAll ((mapStyle (appWith ?ls 0))\<lparr>layers := cs\<rparr>) = []
              then (mapStyle (appWith ?ls 0))\<lparr>layers := cs\<rparr> else mapStyle (appWith ?ls 0))"
    by auto
  have cs: "cs = [mkLayer ''A'', mkLayer ''B-copy'', mkLayer ''B'']"
    using c(2) by (simp add: mkLayer_def)
  have one: "length (filter (\<lambda>l. layer_id l = ''B-copy'') cs) = 1"
    using c(3) by simp
  have ls: "layers (mapStyle st') = cs" using c(5) v by simp
  show ?thesis using h n' c(1) c(4) cs one ls by simp
qed


subsection \<open>The selection under layer changes\<close>

text \<open>C3 (amended): when the selection is within the layer list, it still is after
  \<^verbatim>\<open>onMoveLayer\<close> and after \<^verbatim>\<open>onLayerCopy\<close>. \<^verbatim>\<open>onLayerCopy\<close> and
  \<^verbatim>\<open>onLayerDestroy\<close> never change \<open>selectedLayerIndex\<close>; after a destroy the
  selection is within the list exactly when the candidate was rejected, or the list had a
  single layer (and is now empty), or the selection was not on the last position. All
  three operations return for a layer id that is in the list.\<close>

theorem selection_after_layer_change:
  "(selectionValid st \<longrightarrow> (\<exists>m. onMoveLayer env st i j = Some m \<and> selectionValid m)) \<and>
   ((\<exists>l\<in>set (layers (mapStyle st)). layer_id l = X) \<longrightarrow>
      (\<exists>c d rest. onLayerCopy env st X = Some c \<and> onLayerDestroy env st X = Some d \<and>
         remainingLayers (layers (mapStyle st)) X = Some rest \<and>
         selectedLayerIndex c = selectedLayerIndex st \<and>
         selectedLayerIndex d = selectedLayerIndex st \<and>
         (selectionValid st \<longrightarrow> selectionValid c) \<and>
         (selectionValid st \<longrightarrow>
            (selectionValid d \<longleftrightarrow>
               validate env ((mapStyle st)\<lparr>layers := rest\<rparr>) \<noteq> [] \<or>
               length (layers (mapStyle st)) = 1 \<or>
               selectedLayerIndex st + 1 < int (length (layers (mapStyle st)))))))"
proof (intro conjI impI)
  assume "selectionValid st"
  then show "\<exists>m. onMoveLayer env st i j = Some m \<and> selectionValid m"
    by (rule onMoveLayer_selectionValid)
next
  assume "\<exists>l\<in>set (layers (mapStyle st)). layer_id l = X"
  then obtain idx where "indexOfLayer (layers (mapStyle st)) X = Some idx"
    using indexOfLayer_found by blast
  then show "\<exists>c d rest. onLayerCopy env st X = Some c \<and> onLayerDestroy env st X = Some d \<and>
         remainingLayers (layers (mapStyle st)) X = Some rest \<and>
         selectedLayerIndex c = selectedLayerIndex st \<and>
         selectedLayerIndex d = selectedLayerIndex st \<and>
         (selectionValid st \<longrightarrow> selectionValid c) \<and>
         (selectionValid st \<longrightarrow>
            (selectionValid d \<longleftrightarrow>
               validate env ((mapStyle st)\<lparr>layers := rest\<rparr>) \<noteq> [] \<or>
               length (layers (mapStyle st)) = 1 \<or>
               selectedLayerIndex st + 1 < int (length (layers (mapStyle st)))))"
    by (rule copy_destroy_selection)
qed

text \<open>Destroying the last layer while it is selected leaves the selection at the length
  of the list that remains.\<close>

theorem onLayerDestroy_selection_counterexample:
  "selectionValid (appWith [mkLayer ''A'', mkLayer ''B''] 1) \<and>
   map_option (\<lambda>s. (layers (mapStyle s), selectedLayerIndex s))
     (onLayerDestroy acceptAll (appWith [mkLayer ''A'', mkLayer ''B''] 1) ''B'')
     = Some ([mkLayer ''A''], 1) \<and>
   map_option selectionValid
     (onLayerDestroy acceptAll (appWith [mkLayer ''A'', mkLayer ''B''] 1) ''B'') = Some False"
  by (simp add: selectionValid_def onLayerDestroy_def remainingLayers_def mkLayer_def
      onLayersChange_mapStyle onLayersChange_selectedLayerIndex appWith_def acceptAll_def)

theorem selection_after_layer_change_witness:
  "selectionValid (appWith [mkLayer ''A'', mkLayer ''B'', mkLayer ''C''] 1) \<and>
   (\<exists>l\<in>set (layers (mapStyle (appWith [mkLayer ''A'', mkLayer ''B'', mkLayer ''C''] 1))).
      layer_id l = ''C'') \<and>
   map_option selectionValid
     (onMoveLayer acceptAll (appWith [mkLayer ''A'', mkLayer ''B'', mkLayer ''C''] 1) 1 2) = Some True \<and>
   map_option selectionValid
     (onLayerCopy acceptAll (appWith [mkLayer ''A'', mkLayer ''B'', mkLayer ''C''] 1) ''C'') = Some True \<and>
   map_option selectionValid
     (onLayerDestroy acceptAll (appWith [mkLayer ''A'', mkLayer ''B'', mkLayer ''C''] 1) ''C'') = Some True"
proof -
  let ?st = "appWith [mkLayer ''A'', mkLayer ''B'', mkLayer ''C''] 1"
  have l: "layers (mapStyle ?st) = [mkLayer ''A'', mkLayer ''B'', mkLayer ''C'']"
    and sel: "selectedLayerIndex ?st = 1"
    by (simp_all add: appWith_def)
  have v: "selectionValid ?st" by (simp add: selectionValid_def l sel)
  have h: "\<exists>l\<in>set (layers (mapStyle ?st)). layer_id l = ''C''"
    by (simp add: appWith_def mkLayer_def)
  have b: "selectedLayerIndex ?st + 1 < int (length (layers (mapStyle ?st)))"
    by (simp add: l sel)
  note t = selection_after_layer_change[of ?st acceptAll 1 2 "''C''"]
  from t v obtain m where m: "onMoveLayer acceptAll ?st 1 2 = Some m" "selectionValid m"
    by blast
  from t h v b obtain c d where cd: "onLayerCopy acceptAll ?st ''C'' = Some c" "selectionValid c"
    "onLayerDestroy acceptAll ?st ''C'' = Some d" "selectionValid d"
    by blast
  show ?thesis using v h m cd by simp
qed

subsection \<open>Toggling the visibility\<close>

text \<open>C7 (amended): one toggle sets the visibility to visible when it was none and to
  none otherwise, an unset flag counting as visible. Two toggles give back the layer
  exactly when its layout holds the visibility visible or none; then the layer list is
  given back as well, and so is the document when the validator accepts both
  candidates. A layer whose visibility is unset comes back with the flag set to
  visible.\<close>

theorem toggleVisibility_spec:
  "visibility (toggleVisibility l) =
     (if visibility l = JStr ''none'' then JStr ''visible'' else JStr ''none'') \<and>
   (toggleVisibility (toggleVisibility l) = l \<longleftrightarrow>
      visibility l = JStr ''visible'' \<or> visibility l = JStr ''none'') \<and>
   (indexOfLayer ls X = Some idx \<longrightarrow>
      (\<exists>ls1 ls2. toggledLayers ls X = Some ls1 \<and> toggledLayers ls1 X = Some ls2 \<and>
         ls1 = ls[idx := toggleVisibility (ls ! idx)] \<and>
         ls2 = ls[idx := toggleVisibility (toggleVisibility (ls ! idx))] \<and>
         (visibility (ls ! idx) = JStr ''visible'' \<or> visibility (ls ! idx) = JStr ''none''
            \<longrightarrow> ls2 = ls))) \<and>
   (indexOfLayer (layers (mapStyle st)) X = Some idx \<and>
    (visibility (layers (mapStyle st) ! idx) = JStr ''visible'' \<or>
     visibility (layers (mapStyle st) ! idx) = JStr ''none'') \<and>
    validate env (mapStyle st) = [] \<and>
    validate env ((mapStyle st)\<lparr>layers :=
      (layers (mapStyle st))[idx := toggleVisibility (layers (mapStyle st) ! idx)]\<rparr>) = []
    \<longrightarrow> (\<exists>s1 s2. onLayerVisibilityToggle env st X = Some s1 \<and>
           onLayerVisibilityToggle env s1 X = Some s2 \<and>
           layers (mapStyle s1) = (layers (mapStyle st))[idx := toggleVisibility (layers (mapStyle st) ! idx)] \<and>
           mapStyle s2 = mapStyle st))"
proof -
  have one: "visibility (toggleVisibility l) =
     (if visibility l = JStr ''none'' then JStr ''visible'' else JStr ''none'')"
    by (rule toggleVisibility_visibility)
  have two: "toggleVisibility (toggleVisibility l) = l \<longleftrightarrow>
      visibility l = JStr ''visible'' \<or> visibility l = JStr ''none''"
  proof
    assume e: "toggleVisibility (toggleVisibility l) = l"
    have "visibility (toggleVisibility (toggleVisibility l)) = JStr ''visible'' \<or>
          visibility (toggleVisibility (toggleVisibility l)) = JStr ''none''"
      by (simp add: toggleVisibility_visibility)
    then show "visibility l = JStr ''visible'' \<or> visibility l = JStr ''none''"
      by (simp only: e)
  next
    assume "visibility l = JStr ''visible'' \<or> visibility l = JStr ''none''"
    then show "toggleVisibility (toggleVisibility l) = l" by (rule toggleVisibility_twice)
  qed
  have lists: "indexOfLayer ms Y = Some k \<Longrightarrow>
      toggledLayers ms Y = Some (ms[k := toggleVisibility (ms ! k)]) \<and>
      toggledLayers (ms[k := toggleVisibility (ms ! k)]) Y
        = Some (ms[k := toggleVisibility (toggleVisibility (ms ! k))])" for ms Y k
  proof -
    assume k: "indexOfLayer ms Y = Some k"
    then have lt: "k < length ms" using indexOfLayer_Some by blast
    have k': "indexOfLayer (ms[k := toggleVisibility (ms ! k)]) Y = Some k"
      using indexOfLayer_ids[OF toggled_ids[OF lt], of Y] k by simp
    show ?thesis using lt by (simp add: toggledLayers_def k k')
  qed
  have three: "indexOfLayer ls X = Some idx \<longrightarrow>
      (\<exists>ls1 ls2. toggledLayers ls X = Some ls1 \<and> toggledLayers ls1 X = Some ls2 \<and>
         ls1 = ls[idx := toggleVisibility (ls ! idx)] \<and>
         ls2 = ls[idx := toggleVisibility (toggleVisibility (ls ! idx))] \<and>
         (visibility (ls ! idx) = JStr ''visible'' \<or> visibility (ls ! idx) = JStr ''none''
            \<longrightarrow> ls2 = ls))"
    using lists[of ls X idx] by (auto simp: toggleVisibility_twice)
  have four: "indexOfLayer (layers (mapStyle st)) X = Some idx \<and>
    (visibility (layers (mapStyle st) ! idx) = JStr ''visible'' \<or>
     visibility (layers (mapStyle st) ! idx) = JStr ''none'') \<and>
    validate env (mapStyle st) = [] \<and>
    validate env ((mapStyle st)\<lparr>layers :=
      (layers (mapStyle st))[idx := toggleVisibility (layers (mapStyle st) ! idx)]\<rparr>) = []
    \<longrightarrow> (\<exists>s1 s2. onLayerVisibilityToggle env st X = Some s1 \<and>
           onLayerVisibilityToggle env s1 X = Some s2 \<and>
           layers (mapStyle s1) = (layers (mapStyle st))[idx := toggleVisibility (layers (mapStyle st) ! idx)] \<and>
           mapStyle s2 = mapStyle st)"
  proof (intro impI, elim conjE)
    define ms where "ms = layers (mapStyle st)"
    define ls1 where "ls1 = ms[idx := toggleVisibility (ms ! idx)]"
    define s1 where "s1 = onLayersChange env st ls1"
    assume k: "indexOfLayer (layers (mapStyle st)) X = Some idx"
      and vis: "visibility (layers (mapStyle st) ! idx) = JStr ''visible'' \<or>
                visibility (layers (mapStyle st) ! idx) = JStr ''none''"
      and v0: "validate env (mapStyle st) = []"
      and v1: "validate env ((mapStyle st)\<lparr>layers :=
          (layers (mapStyle st))[idx := toggleVisibility (layers (mapStyle st) ! idx)]\<rparr>) = []"
    from lists[OF k] have t1: "toggledLayers ms X = Some ls1"
      and t2: "toggledLayers ls1 X = Some (ms[idx := toggleVisibility (toggleVisibility (ms ! idx))])"
      by (simp_all add: ms_def ls1_def)
    have restored: "ms[idx := toggleVisibility (toggleVisibility (ms ! idx))] = ms"
      using vis by (simp add: ms_def toggleVisibility_twice)
    have r1: "onLayerVisibilityToggle env st X = Some s1"
      using t1 by (simp add: onLayerVisibilityToggle_def s1_def ms_def)
    have m1: "mapStyle s1 = (mapStyle st)\<lparr>layers := ls1\<rparr>"
      using v1 by (simp add: s1_def onLayersChange_mapStyle ls1_def ms_def)
    have c2: "(mapStyle s1)\<lparr>layers := ms\<rparr> = mapStyle st"
      by (simp add: m1 ms_def)
    have r2: "onLayerVisibilityToggle env s1 X = Some (onLayersChange env s1 ms)"
      using t2 by (simp add: onLayerVisibilityToggle_def m1 restored)
    have m2: "mapStyle (onLayersChange env s1 ms) = mapStyle st"
      using v0 by (simp add: onLayersChange_mapStyle c2)
    show "\<exists>s1 s2. onLayerVisibilityToggle env st X = Some s1 \<and>
           onLayerVisibilityToggle env s1 X = Some s2 \<and>
           layers (mapStyle s1) = (layers (mapStyle st))[idx := toggleVisibility (layers (mapStyle st) ! idx)] \<and>
           mapStyle s2 = mapStyle st"
      using r1 r2 m1 m2 by (simp add: ls1_def ms_def)
  qed
  from one two three four show ?thesis by blast
qed

theorem toggleVisibility_spec_witness:
  "indexOfLayer [hiddenLayer] ''A'' = Some 0 \<and>
   visibility hiddenLayer = JStr ''none'' \<and>
   visibility (toggleVisibility hiddenLayer) = JStr ''visible'' \<and>
   toggleVisibility (toggleVisibility hiddenLayer) = hiddenLayer \<and>
   Option.bind (toggledLayers [hiddenLayer] ''A'') (\<lambda>ls1. toggledLayers ls1 ''A'') = Some [hiddenLayer] \<and>
   Option.bind (onLayerVisibilityToggle acceptAll (appWith [hiddenLayer] 0) ''A'')
     (\<lambda>s1. map_option mapStyle (onLayerVisibilityToggle acceptAll s1 ''A''))
     = Some (mapStyle (appWith [hiddenLayer] 0))"
proof -
  let ?st = "appWith [hiddenLayer] 0"
  have l: "layers (mapStyle ?st) = [hiddenLayer]" by (simp add: appWith_def)
  have i: "indexOfLayer [hiddenLayer] ''A'' = Some 0" by (simp add: hiddenLayer_def)
  have vis: "visibility hiddenLayer = JStr ''none''" by (simp add: visibility_def hiddenLayer_def)
  have v: "validate acceptAll d = []" for d by (simp add: acceptAll_def)
  note t = toggleVisibility_spec[of hiddenLayer "[hiddenLayer]" "''A''" 0 ?st acceptAll]
  from t vis have a: "visibility (toggleVisibility hiddenLayer) = JStr ''visible''"
    and b: "toggleVisibility (toggleVisibility hiddenLayer) = hiddenLayer"
    by simp_all
  from t i vis obtain ls1 ls2 where ll: "toggledLayers [hiddenLayer] ''A'' = Some ls1"
    "toggledLayers ls1 ''A'' = Some ls2" "ls2 = [hiddenLayer]"
    by auto
  from t i vis v l obtain s1 s2 where ss: "onLayerVisibilityToggle acceptAll ?st ''A'' = Some s1"
    "onLayerVisibilityToggle acceptAll s1 ''A'' = Some s2" "mapStyle s2 = mapStyle ?st"
    by auto
  show ?thesis using i vis a b ll ss by simp
qed

text \<open>A layer without a layout is not equal to itself toggled twice.\<close>

theorem toggleVisibility_twice_counterexample:
  "visibility (mkLayer ''A'') = Undefined \<and>
   toggleVisibility (mkLayer ''A'')
     = \<lparr>layer_id = ''A'', layout = Some [(''visibility'', JStr ''none'')], props = []\<rparr> \<and>
   toggleVisibility (toggleVisibility (mkLayer ''A''))
     = \<lparr>layer_id = ''A'', layout = Some [(''visibility'', JStr ''visible'')], props = []\<rparr> \<and>
   toggleVisibility (toggleVisibility (mkLayer ''A'')) \<noteq> mkLayer ''A'' \<and>
   Option.bind (onLayerVisibilityToggle acceptAll (appWith [mkLayer ''A''] 0) ''A'')
     (\<lambda>s1. map_option (layers \<circ> mapStyle) (onLayerVisibilityToggle acceptAll s1 ''A''))
     = Some [\<lparr>layer_id = ''A'', layout = Some [(''visibility'', JStr ''visible'')], props = []\<rparr>]"
  by (simp add: visibility_def toggleVisibility_def mkLayer_def onLayerVisibilityToggle_def
      toggledLayers_def onLayersChange_mapStyle appWith_def acceptAll_def)


subsection \<open>Source reconciliation\<close>

text \<open>C6: \<^verbatim>\<open>fetchSources\<close> records, in the state it returns, the pending descriptor
  (the declared type, no layers) of every declared source that was not known; every
  fetch it issues is for a declared source of type vector that has a url; when the
  fetch of such a new source resolves with \<open>{vector_layers: [{id: "roads"}]}\<close>, the
  descriptor's layers are \<open>["roads"]\<close>. For a document whose only source is s1, a
  vector source with a url, and no known sources: the known sources become
  \<open>{s1: {type: vector, layers: []}}\<close>, one fetch is issued, and after it resolves the
  layers of s1 are \<open>["roads"]\<close>.\<close>

theorem fetchSources_spec:
  "(map_of (sources (mapStyle st)) key = Some val \<and> map_of (state_sources st) key = None \<longrightarrow>
      map_of (state_sources (fetchSources env st)) key
        = Some \<lparr>desc_type = spec_type val, desc_layers = []\<rparr>) \<and>
   (\<exists>new. fetched (fetchSources env st) = fetched st @ new \<and>
      (\<forall>(k, u)\<in>set new. \<exists>v u0. (k, v) \<in> set (sources (mapStyle st)) \<and>
         spec_type v = ''vector'' \<and> url v = Some u0 \<and>
         u = (case normalizeSourceURL env u0 of Some u' \<Rightarrow> u' | None \<Rightarrow> u0))) \<and>
   (map_of (sources (mapStyle st)) key = Some val \<and> map_of (state_sources st) key = None \<longrightarrow>
      map_of (state_sources (fetchSettled key u (Body roadsResponse) (fetchSources env st))) key
        = Some \<lparr>desc_type = spec_type val, desc_layers = [JStr ''roads'']\<rparr>) \<and>
   (sources (mapStyle st) = [(''s1'', \<lparr>spec_type = ''vector'', url = Some u0\<rparr>)] \<and>
    state_sources st = [] \<longrightarrow>
      state_sources (fetchSources env st)
        = [(''s1'', \<lparr>desc_type = ''vector'', desc_layers = []\<rparr>)] \<and>
      fetched (fetchSources env st)
        = fetched st @ [(''s1'', case normalizeSourceURL env u0 of Some u' \<Rightarrow> u' | None \<Rightarrow> u0)] \<and>
      state_sources (fetchSettled ''s1'' u (Body roadsResponse) (fetchSources env st))
        = [(''s1'', \<lparr>desc_type = ''vector'', desc_layers = [JStr ''roads'']\<rparr>)])"
proof -
  have pending: "map_of (sources (mapStyle st)) key = Some val \<and> map_of (state_sources st) key = None \<longrightarrow>
      map_of (state_sources (fetchSources env st)) key
        = Some \<lparr>desc_type = spec_type val, desc_layers = []\<rparr>"
    by (simp add: fetchSources_state_sources)
  have only: "\<exists>new. fetched (fetchSources env st) = fetched st @ new \<and>
      (\<forall>(k, u)\<in>set new. \<exists>v u0. (k, v) \<in> set (sources (mapStyle st)) \<and>
         spec_type v = ''vector'' \<and> url v = Some u0 \<and>
         u = (case normalizeSourceURL env u0 of Some u' \<Rightarrow> u' | None \<Rightarrow> u0))"
    by (rule fetchSources_fetched)
  have resolved: "map_of (sources (mapStyle st)) key = Some val \<and> map_of (state_sources st) key = None \<longrightarrow>
      map_of (state_sources (fetchSettled key u (Body roadsResponse) (fetchSources env st))) key
        = Some \<lparr>desc_type = spec_type val, desc_layers = [JStr ''roads'']\<rparr>"
  proof
    assume a: "map_of (sources (mapStyle st)) key = Some val \<and> map_of (state_sources st) key = None"
    with pending have p: "map_of (state_sources (fetchSources env st)) key
        = Some \<lparr>desc_type = spec_type val, desc_layers = []\<rparr>" by blast
    show "map_of (state_sources (fetchSettled key u (Body roadsResponse) (fetchSources env st))) key
        = Some \<lparr>desc_type = spec_type val, desc_layers = [JStr ''roads'']\<rparr>"
      by (simp add: fetchSettled_roads[OF p] update_conv')
  qed
  have scenario: "sources (mapStyle st) = [(''s1'', \<lparr>spec_type = ''vector'', url = Some u0\<rparr>)] \<and>
    state_sources st = [] \<longrightarrow>
      state_sources (fetchSources env st)
        = [(''s1'', \<lparr>desc_type = ''vector'', desc_layers = []\<rparr>)] \<and>
      fetched (fetchSources env st)
        = fetched st @ [(''s1'', case normalizeSourceURL env u0 of Some u' \<Rightarrow> u' | None \<Rightarrow> u0)] \<and>
      state_sources (fetchSettled ''s1'' u (Body roadsResponse) (fetchSources env st))
        = [(''s1'', \<lparr>desc_type = ''vector'', desc_layers = [JStr ''roads'']\<rparr>)]"
  proof
    assume a: "sources (mapStyle st) = [(''s1'', \<lparr>spec_type = ''vector'', url = Some u0\<rparr>)] \<and>
      state_sources st = []"
    have s: "state_sources (fetchSources env st)
        = [(''s1'', \<lparr>desc_type = ''vector'', desc_layers = []\<rparr>)]"
      using a by (simp add: fetchSources_def hasOwnProperty_def issueFetch_frame)
    have f: "fetched (fetchSources env st)
        = fetched st @ [(''s1'', case normalizeSourceURL env u0 of Some u' \<Rightarrow> u' | None \<Rightarrow> u0)]"
      using a by (simp add: fetchSources_def hasOwnProperty_def issueFetch_frame issueFetch_fetched)
    have p: "map_of (state_sources (fetchSources env st)) ''s1''
        = Some \<lparr>desc_type = ''vector'', desc_layers = []\<rparr>"
      by (simp add: s)
    have r: "state_sources (fetchSettled ''s1'' u (Body roadsResponse) (fetchSources env st))
        = [(''s1'', \<lparr>desc_type = ''vector'', desc_layers = [JStr ''roads'']\<rparr>)]"
      by (simp add: fetchSettled_roads[OF p] s)
    from s f r show "state_sources (fetchSources env st)
        = [(''s1'', \<lparr>desc_type = ''vector'', desc_layers = []\<rparr>)] \<and>
      fetched (fetchSources env st)
        = fetched st @ [(''s1'', case normalizeSourceURL env u0 of Some u' \<Rightarrow> u' | None \<Rightarrow> u0)] \<and>
      state_sources (fetchSettled ''s1'' u (Body roadsResponse) (fetchSources env st))
        = [(''s1'', \<lparr>desc_type = ''vector'', desc_layers = [JStr ''roads'']\<rparr>)]"
      by blast
  qed
  from pending only resolved scenario show ?thesis by blast
qed

theorem fetchSources_spec_witness:
  "sources (mapStyle (initialApp\<lparr>mapStyle := vectorStyle\<rparr>))
     = [(''s1'', \<lparr>spec_type = ''vector'', url = Some ''https://x/tiles.json''\<rparr>)] \<and>
   state_sources (initialApp\<lparr>mapStyle := vectorStyle\<rparr>) = [] \<and>
   state_sources (fetchSources acceptAll (initialApp\<lparr>mapStyle := vectorStyle\<rparr>))
     = [(''s1'', \<lparr>desc_type = ''vector'', desc_layers = []\<rparr>)] \<and>
   fetched (fetchSources acceptAll (initialApp\<lparr>mapStyle := vectorStyle\<rparr>))
     = [(''s1'', ''https://x/tiles.json'')] \<and>
   state_sources (fetchSettled ''s1'' ''https://x/tiles.json'' (Body roadsResponse)
       (fetchSources acceptAll (initialApp\<lparr>mapStyle := vectorStyle\<rparr>)))
     = [(''s1'', \<lparr>desc_type = ''vector'', desc_layers = [JStr ''roads'']\<rparr>)] \<and>
   map_of (sources (mapStyle (initialApp\<lparr>mapStyle := mixedStyle\<rparr>))) ''g''
     = Some \<lparr>spec_type = ''geojson'', url = Some ''https://x/data.json''\<rparr> \<and>
   map_of (state_sources (initialApp\<lparr>mapStyle := mixedStyle\<rparr>)) ''g'' = None \<and>
   map_of (state_sources (fetchSources acceptAll (initialApp\<lparr>mapStyle := mixedStyle\<rparr>))) ''g''
     = Some \<lparr>desc_type = ''geojson'', desc_layers = []\<rparr> \<and>
   fetched (fetchSources acceptAll (initialApp\<lparr>mapStyle := mixedStyle\<rparr>))
     = [(''s1'', ''https://x/tiles.json'')]"
proof -
  let ?st = "initialApp\<lparr>mapStyle := vectorStyle\<rparr>"
  let ?mx = "initialApp\<lparr>mapStyle := mixedStyle\<rparr>"
  have a: "sources (mapStyle ?st)
     = [(''s1'', \<lparr>spec_type = ''vector'', url = Some ''https://x/tiles.json''\<rparr>)]"
    by (simp add: vectorStyle_def emptyStyle_def)
  have b: "state_sources ?st = []" "fetched ?st = []" by (simp_all add: initialApp_def)
  have n: "(case normalizeSourceURL acceptAll ''https://x/tiles.json'' of Some u' \<Rightarrow> u'
            | None \<Rightarrow> ''https://x/tiles.json'') = ''https://x/tiles.json''"
    by (simp add: acceptAll_def)
  have g: "map_of (sources (mapStyle ?mx)) ''g''
     = Some \<lparr>spec_type = ''geojson'', url = Some ''https://x/data.json''\<rparr>"
    by (simp add: mixedStyle_def emptyStyle_def)
  have gn: "map_of (state_sources ?mx) ''g'' = None" by (simp add: initialApp_def)
  note t = fetchSources_spec[of ?st "''s1''" "\<lparr>spec_type = ''vector'', url = Some ''https://x/tiles.json''\<rparr>"
      acceptAll "''https://x/tiles.json''" "''https://x/tiles.json''"]
  from t a b(1) have s:
    "state_sources (fetchSources acceptAll ?st)
       = [(''s1'', \<lparr>desc_type = ''vector'', desc_layers = []\<rparr>)]"
    "fetched (fetchSources acceptAll ?st)
       = fetched ?st @ [(''s1'', case normalizeSourceURL acceptAll ''https://x/tiles.json'' of
                                 Some u' \<Rightarrow> u' | None \<Rightarrow> ''https://x/tiles.json'')]"
    "state_sources (fetchSettled ''s1'' ''https://x/tiles.json'' (Body roadsResponse)
        (fetchSources acceptAll ?st))
       = [(''s1'', \<lparr>desc_type = ''vector'', desc_layers = [JStr ''roads'']\<rparr>)]"
    by blast+
  note m = fetchSources_spec[of ?mx "''g''" "\<lparr>spec_type = ''geojson'', url = Some ''https://x/data.json''\<rparr>"
      acceptAll "''u''" "''u''"]
  from m g gn have pg:
    "map_of (state_sources (fetchSources acceptAll ?mx)) ''g''
       = Some \<lparr>desc_type = spec_type \<lparr>spec_type = ''geojson'', url = Some ''https://x/data.json''\<rparr>,
               desc_layers = []\<rparr>"
    by blast
  have fm: "fetched (fetchSources acceptAll ?mx) = [(''s1'', ''https://x/tiles.json'')]"
    by (simp add: fetchSources_def mixedStyle_def emptyStyle_def initialApp_def hasOwnProperty_def
        issueFetch_def acceptAll_def)
  show ?thesis using a b g gn s pg fm n by simp
qed

text \<open>C10: when the body of the response has no \<^verbatim>\<open>vector_layers\<close> property, the
  callback records no layers: the known sources, the errors, the infos and the
  document stay as they were. For a body other than \<^verbatim>\<open>null\<close> nothing changes at
  all; on \<^verbatim>\<open>null\<close> the property test throws, which is caught and logged on the
  console like a failed fetch. A failed fetch is caught and logged, changes nothing
  else, and leaves the pending descriptor of a new source without layers.\<close>

theorem fetchSettled_ignored:
  "(jsHasOwnProperty json ''vector_layers'' \<noteq> Inr True \<longrightarrow>
      state_sources (fetchSettled key u (Body json) st) = state_sources st \<and>
      errors (fetchSettled key u (Body json) st) = errors st \<and>
      infos (fetchSettled key u (Body json) st) = infos st \<and>
      mapStyle (fetchSettled key u (Body json) st) = mapStyle st) \<and>
   (jsHasOwnProperty json ''vector_layers'' = Inr False \<longrightarrow>
      fetchSettled key u (Body json) st = st) \<and>
   (jsHasOwnProperty json ''vector_layers'' = Inl TypeError \<longrightarrow>
      fetchSettled key u (Body json) st = logFetchError u st) \<and>
   fetchSettled key u Failed st
     = st\<lparr>console := console st @ [ConsoleError (''Failed to process sources for '' @ u)]\<rparr> \<and>
   state_sources (fetchSettled key u Failed st) = state_sources st \<and>
   errors (fetchSettled key u Failed st) = errors st \<and>
   (map_of (sources (mapStyle st)) key = Some val \<and> map_of (state_sources st) key = None \<longrightarrow>
      map_of (state_sources (fetchSettled key u Failed (fetchSources env st))) key
        = Some \<lparr>desc_type = spec_type val, desc_layers = []\<rparr>)"
proof -
  have a: "jsHasOwnProperty json ''vector_layers'' \<noteq> Inr True \<longrightarrow>
      state_sources (fetchSettled key u (Body json) st) = state_sources st \<and>
      errors (fetchSettled key u (Body json) st) = errors st \<and>
      infos (fetchSettled key u (Body json) st) = infos st \<and>
      mapStyle (fetchSettled key u (Body json) st) = mapStyle st"
  proof (cases "jsHasOwnProperty json ''vector_layers''")
    case (Inl e)
    then show ?thesis by (simp add: fetchSettled_throws logFetchError_frame)
  next
    case (Inr b)
    then show ?thesis by (cases b) (simp_all add: fetchSettled_no_property)
  qed
  have b: "jsHasOwnProperty json ''vector_layers'' = Inr False \<longrightarrow>
      fetchSettled key u (Body json) st = st"
    by (simp add: fetchSettled_no_property)
  have c: "jsHasOwnProperty json ''vector_layers'' = Inl TypeError \<longrightarrow>
      fetchSettled key u (Body json) st = logFetchError u st"
    by (simp add: fetchSettled_throws)
  have d: "fetchSettled key u Failed st
     = st\<lparr>console := console st @ [ConsoleError (''Failed to process sources for '' @ u)]\<rparr>"
    by (simp add: fetchSettled_def logFetchError_def)
  have e: "state_sources (fetchSettled key u Failed st') = state_sources st'" for st'
    by (simp add: fetchSettled_def logFetchError_def)
  have f: "errors (fetchSettled key u Failed st) = errors st"
    by (simp add: fetchSettled_def logFetchError_def)
  have g: "map_of (sources (mapStyle st)) key = Some val \<and> map_of (state_sources st) key = None \<longrightarrow>
      map_of (state_sources (fetchSettled key u Failed (fetchSources env st))) key
        = Some \<lparr>desc_type = spec_type val, desc_layers = []\<rparr>"
    by (simp add: e fetchSources_state_sources)
  from a b c d e[of st] f g show ?thesis by blast
qed

theorem fetchSettled_ignored_witness:
  "jsHasOwnProperty (JObj [(''tiles'', JArr [])]) ''vector_layers'' = Inr False \<and>
   jsHasOwnProperty JNull ''vector_layers'' = Inl TypeError \<and>
   map_of (sources (mapStyle (initialApp\<lparr>mapStyle := vectorStyle\<rparr>))) ''s1''
     = Some \<lparr>spec_type = ''vector'', url = Some ''https://x/tiles.json''\<rparr> \<and>
   map_of (state_sources (initialApp\<lparr>mapStyle := vectorStyle\<rparr>)) ''s1'' = None \<and>
   fetchSettled ''s1'' ''u'' (Body (JObj [(''tiles'', JArr [])])) initialApp = initialApp \<and>
   state_sources (fetchSettled ''s1'' ''u'' (Body JNull) initialApp) = state_sources initialApp \<and>
   errors (fetchSettled ''s1'' ''u'' (Body JNull) initialApp) = errors initialApp \<and>
   console (fetchSettled ''s1'' ''u'' (Body JNull) initialApp)
     = [ConsoleError ''Failed to process sources for u''] \<and>
   map_of (state_sources (fetchSettled ''s1'' ''u'' Failed
       (fetchSources acceptAll (initialApp\<lparr>mapStyle := vectorStyle\<rparr>)))) ''s1''
     = Some \<lparr>desc_type = ''vector'', desc_layers = []\<rparr>"
proof -
  let ?st = "initialApp\<lparr>mapStyle := vectorStyle\<rparr>"
  have h1: "jsHasOwnProperty (JObj [(''tiles'', JArr [])]) ''vector_layers'' = Inr False"
    by (simp add: hasOwnProperty_def)
  have h2: "jsHasOwnProperty JNull ''vector_layers'' = Inl TypeError" by simp
  have h2': "jsHasOwnProperty JNull ''vector_layers'' \<noteq> Inr True" by simp
  have h3: "map_of (sources (mapStyle ?st)) ''s1''
     = Some \<lparr>spec_type = ''vector'', url = Some ''https://x/tiles.json''\<rparr>"
    by (simp add: vectorStyle_def emptyStyle_def)
  have h4: "map_of (state_sources ?st) ''s1'' = None" by (simp add: initialApp_def)
  note t1 = fetchSettled_ignored[of "JObj [(''tiles'', JArr [])]" "''s1''" "''u''" initialApp]
  note t2 = fetchSettled_ignored[of JNull "''s1''" "''u''" initialApp]
  note t3 = fetchSettled_ignored[of JNull "''s1''" "''u''" ?st
      "\<lparr>spec_type = ''vector'', url = Some ''https://x/tiles.json''\<rparr>" acceptAll]
  from t1 h1 have r1: "fetchSettled ''s1'' ''u'' (Body (JObj [(''tiles'', JArr [])])) initialApp = initialApp"
    by blast
  from t2 h2' have r2: "state_sources (fetchSettled ''s1'' ''u'' (Body JNull) initialApp) = state_sources initialApp"
    "errors (fetchSettled ''s1'' ''u'' (Body JNull) initialApp) = errors initialApp"
    by blast+
  from t2 h2 have r3: "fetchSettled ''s1'' ''u'' (Body JNull) initialApp = logFetchError ''u'' initialApp"
    by blast
  have r3': "console (fetchSettled ''s1'' ''u'' (Body JNull) initialApp)
     = [ConsoleError ''Failed to process sources for u'']"
    unfolding r3 by (simp add: logFetchError_def initialApp_def)
  from t3 h3 h4 have r4: "map_of (state_sources (fetchSettled ''s1'' ''u'' Failed
       (fetchSources acceptAll ?st))) ''s1''
     = Some \<lparr>desc_type = spec_type \<lparr>spec_type = ''vector'', url = Some ''https://x/tiles.json''\<rparr>,
             desc_layers = []\<rparr>"
    by blast
  show ?thesis using h1 h2 h3 h4 r1 r2 r3' r4 by simp
qed


end
